theory Spec2Isabelle
  imports Main "HOL-Library.Multiset" "HOL-Library.List_Lexorder" "HOL-Library.Char_ord"
begin

section \<open>Python values, exceptions and strings\<close>

text \<open>
  Parameter values are Python scalars: \<open>None\<close>, a string, an integer or a boolean.
  Python compares them with \<open>==\<close>, under which \<open>False == 0\<close> and \<open>True == 1\<close>.
\<close>

datatype pyval = PNone | PStr string | PInt int | PBool bool

fun py_eq :: "pyval \<Rightarrow> pyval \<Rightarrow> bool" where
  "py_eq (PInt i) (PBool b) = (i = (if b then 1 else 0))"
| "py_eq (PBool b) (PInt i) = (i = (if b then 1 else 0))"
| "py_eq x y = (x = y)"

definition py_ne :: "pyval \<Rightarrow> pyval \<Rightarrow> bool" where
  "py_ne x y = (\<not> py_eq x y)"

text \<open>
  The exceptions that occur in the modelled code: \<open>AttributeError\<close> is raised by an
  attribute access on \<open>None\<close>; \<open>Exception msg\<close> stands for every other exception
  (the one of \<open>remove_section\<close>, and whatever a live query of a condition checker raises).
\<close>

datatype error = AttributeError | Exception string

text \<open>Python's \<open>s.replace(old, new)\<close>: every non-overlapping occurrence, left to right.\<close>

function str_replace :: "string \<Rightarrow> string \<Rightarrow> string \<Rightarrow> string" where
  "str_replace old new s =
     (if old = [] then new @ concat (map (\<lambda>c. c # new) s)
      else if s = [] then []
      else if take (length old) s = old then new @ str_replace old new (drop (length old) s)
      else hd s # str_replace old new (tl s))"
  by pat_completeness auto
termination
  by (relation "measure (\<lambda>(old, new, s). length s)") auto

declare str_replace.simps [simp del]

text \<open>Python's \<open>sep.join(xs)\<close>.\<close>

fun str_join :: "string \<Rightarrow> string list \<Rightarrow> string" where
  "str_join sep [] = []"
| "str_join sep [x] = x"
| "str_join sep (x # y # ys) = x @ sep @ str_join sep (y # ys)"


text \<open>Python's \<open>str(n)\<close> for a non-negative integer.\<close>

definition digit_char :: "nat \<Rightarrow> char" where
  "digit_char d = char_of (48 + d)"

fun str_nat :: "nat \<Rightarrow> string" where
  "str_nat n = (if n < 10 then [digit_char n] else str_nat (n div 10) @ [digit_char (n mod 10)])"

declare str_nat.simps [simp del]

section \<open>update\_policy.py\<close>

datatype CheckResult = SUCCEEDED | ACTION_NEEDED | FAILED

fun CheckResult_value :: "CheckResult \<Rightarrow> string" where
  "CheckResult_value SUCCEEDED = ''SUCCEEDED''"
| "CheckResult_value ACTION_NEEDED = ''ACTION NEEDED''"
| "CheckResult_value FAILED = ''FAILED''"

text \<open>
  An \<open>UpdatePolicy\<close> object. The condition checker is a Python callable on the stack name;
  it queries the live infrastructure, so it may raise instead of returning.
\<close>

record UpdatePolicy =
  fail_reason :: "string option"
  action_needed :: "string option"
  condition_checker :: "(string \<Rightarrow> error + bool) option"
  level :: int

text \<open>Python truthiness of an optional string and of an optional integer.\<close>

fun truthy_str :: "string option \<Rightarrow> bool" where
  "truthy_str None = False"
| "truthy_str (Some s) = (s \<noteq> [])"

fun truthy_int :: "int option \<Rightarrow> bool" where
  "truthy_int None = False"
| "truthy_int (Some i) = (i \<noteq> 0)"

text \<open>\<open>UpdatePolicy.__init__\<close>: the fields of the base policy, overridden by every truthy argument.\<close>

definition UpdatePolicy_init ::
  "UpdatePolicy option \<Rightarrow> int option \<Rightarrow> string option \<Rightarrow> string option \<Rightarrow>
   (string \<Rightarrow> error + bool) option \<Rightarrow> UpdatePolicy" where
  "UpdatePolicy_init base_policy lvl reason action checker =
     (let self = \<lparr>fail_reason = None, action_needed = None, condition_checker = None, level = 0\<rparr>;
          self = (case base_policy of
                    None \<Rightarrow> self
                  | Some b \<Rightarrow> \<lparr>fail_reason = fail_reason b, action_needed = action_needed b,
                               condition_checker = condition_checker b, level = level b\<rparr>);
          self = (if truthy_int lvl then self\<lparr>level := the lvl\<rparr> else self);
          self = (if truthy_str reason then self\<lparr>fail_reason := reason\<rparr> else self);
          self = (if truthy_str action then self\<lparr>action_needed := action\<rparr> else self);
          self = (if checker \<noteq> None then self\<lparr>condition_checker := checker\<rparr> else self)
      in self)"

text \<open>\<open>UpdatePolicy.check\<close>.\<close>

definition UpdatePolicy_check :: "UpdatePolicy \<Rightarrow> string \<Rightarrow> error + CheckResult" where
  "UpdatePolicy_check self stack_name =
     (case condition_checker self of
        None \<Rightarrow> Inr FAILED
      | Some checker \<Rightarrow>
          (case checker stack_name of
             Inl e \<Rightarrow> Inl e
           | Inr b \<Rightarrow> Inr (if b then SUCCEEDED else ACTION_NEEDED)))"

text \<open>\<open>UpdatePolicy.__eq__\<close>, and \<open>!=\<close>, which Python 3 derives from it.\<close>

definition UpdatePolicy_eq :: "UpdatePolicy \<Rightarrow> UpdatePolicy \<Rightarrow> bool" where
  "UpdatePolicy_eq self other = (fail_reason self = fail_reason other \<and> level self = level other)"

definition UpdatePolicy_ne :: "UpdatePolicy \<Rightarrow> UpdatePolicy \<Rightarrow> bool" where
  "UpdatePolicy_ne self other = (\<not> UpdatePolicy_eq self other)"

text \<open>
  The base policies. The two live queries of \<open>pcluster.utils\<close> are parameters:
  \<open>get_asg_instances\<close> returns the instances of the compute fleet,
  \<open>get_master_server_state\<close> the state of the master node.
\<close>

definition IGNORED :: UpdatePolicy where
  "IGNORED = UpdatePolicy_init None (Some (- 10)) None None (Some (\<lambda>stack_name. Inr True))"

definition ALLOWED :: UpdatePolicy where
  "ALLOWED = UpdatePolicy_init None (Some 0) None None (Some (\<lambda>stack_name. Inr True))"

definition stop_cluster_action :: string where
  "stop_cluster_action =
     ''Stop the cluster with the following command: \<newline>pcluster stop -c $CONFIG_FILE $CLUSTER_NAME''"

definition COMPUTE_FLEET_RESTART :: "(string \<Rightarrow> error + string list) \<Rightarrow> UpdatePolicy" where
  "COMPUTE_FLEET_RESTART get_asg_instances =
     UpdatePolicy_init None (Some 10) (Some ''Compute fleet must be empty'') (Some stop_cluster_action)
       (Some (\<lambda>stack_name. case get_asg_instances stack_name of
                              Inl e \<Rightarrow> Inl e
                            | Inr instances \<Rightarrow> Inr (length instances = 0)))"

definition MASTER_RESTART :: "(string \<Rightarrow> error + string) \<Rightarrow> UpdatePolicy" where
  "MASTER_RESTART get_master_server_state =
     UpdatePolicy_init None (Some 20) (Some ''Master node must be down'') (Some stop_cluster_action)
       (Some (\<lambda>stack_name. case get_master_server_state stack_name of
                              Inl e \<Rightarrow> Inl e
                            | Inr state \<Rightarrow> Inr (state = ''stopped'')))"

definition UNKNOWN :: UpdatePolicy where
  "UNKNOWN =
     UpdatePolicy_init None (Some 100) (Some ''Update currently not supported'')
       (Some ''Restore the previous parameter value for the unsupported changes.'') None"

definition DENIED :: UpdatePolicy where
  "DENIED =
     UpdatePolicy_init None (Some 1000) (Some ''Update currently unsupported'')
       (Some ''Restore the previous parameter value for the unsupported changes.'') None"

section \<open>The configuration model\<close>

text \<open>
  Modelled from the spec: the classes \<open>Param\<close>, \<open>Section\<close> and \<open>PclusterConfig\<close>, of
  \<open>pcluster.config.pcluster_config\<close> and the modules of the section and parameter types,
  which are missing. A parameter has a key, a value, its update policy and, when it
  is a settings parameter, the key of the sections it refers to. A section has a key, a
  label, its parameters, an optional \<open>key_param\<close> and the transient \<open>mock\<close> flag;
  \<open>default_params\<close> stands for \<open>section.definition\<close>: the parameters, at their default
  values, of a fresh section of the same type. \<open>attached\<close> tells whether the section
  object is part of its configuration: a section whose key and label are taken over by
  another section remains an object, which a running loop may still hold, but is not in
  the configuration any more.
\<close>

record Param =
  p_key :: string
  p_value :: pyval
  p_update_policy :: UpdatePolicy
  referred_section_key :: "string option"

record Section =
  key :: string
  label :: string
  params :: "Param list"
  key_param :: "string option"
  mock :: bool
  default_params :: "Param list"
  attached :: bool

text \<open>
  Modelled from the spec: a configuration is an ordered collection of sections, grouped by
  section key and looked up by label; within a configuration, a key and a label identify
  one section. The section objects are kept in one list, in insertion order, and an object
  is identified by its position, which no relabelling changes. The sections of the
  configuration are the attached ones.
\<close>

record Config =
  config_file :: string
  sections :: "Section list"

definition live_sections :: "Config \<Rightarrow> Section list" where
  "live_sections c = filter attached (sections c)"

text \<open>Modelled from the spec: \<open>Section.get_param\<close> is \<open>None\<close> for an absent parameter.\<close>

definition get_param :: "Section \<Rightarrow> string \<Rightarrow> Param option" where
  "get_param section param_key = find (\<lambda>p. p_key p = param_key) (params section)"

definition get_param_value :: "Section \<Rightarrow> string \<Rightarrow> pyval" where
  "get_param_value section param_key =
     (case get_param section param_key of None \<Rightarrow> PNone | Some p \<Rightarrow> p_value p)"

text \<open>
  Modelled from the spec: the section type's constructor, called with a section definition
  and a label, makes a fresh section of the same key with every parameter at its default.
\<close>

definition Section_init :: "Section \<Rightarrow> string \<Rightarrow> Section" where
  "Section_init like section_label =
     \<lparr>key = key like, label = section_label, params = default_params like,
      key_param = key_param like, mock = False, default_params = default_params like,
      attached = True\<rparr>"

text \<open>
  Modelled from the spec: the accessors of a configuration. \<open>get_section_keys\<close> lists the
  keys in the order of their first section, \<open>get_sections\<close> the sections of a key, and
  \<open>get_section\<close> looks a section up by key and label; called without a label, as in
  \<open>get_section("cluster")\<close>, it returns the first section of the key. All three
  return nothing, and do not raise, where there is no section.
\<close>

definition get_section_keys :: "Config \<Rightarrow> string list" where
  "get_section_keys c = rev (remdups (rev (map key (live_sections c))))"

definition get_sections :: "Config \<Rightarrow> string \<Rightarrow> Section list" where
  "get_sections c section_key = filter (\<lambda>s. key s = section_key) (live_sections c)"

definition get_section :: "Config \<Rightarrow> string \<Rightarrow> string option \<Rightarrow> Section option" where
  "get_section c section_key section_label =
     (case section_label of
        None \<Rightarrow> (case get_sections c section_key of [] \<Rightarrow> None | s # _ \<Rightarrow> Some s)
      | Some l \<Rightarrow> find (\<lambda>s. label s = l) (get_sections c section_key))"

text \<open>
  Modelled from the spec: a settings parameter holds the sorted, comma-joined labels of the
  non-mock sections of the key it refers to, and is recomputed when the structure of the
  configuration changes (a section is relabelled, added or removed), as
  \<open>tests/pcluster/config/test_runtime.py\<close> shows for all three.
\<close>

definition settings_value :: "Section list \<Rightarrow> string \<Rightarrow> pyval" where
  "settings_value ss referred_key =
     PStr (str_join '','' (sort (map label (filter (\<lambda>s. key s = referred_key \<and> \<not> mock s) ss))))"

definition refresh_param :: "Section list \<Rightarrow> Param \<Rightarrow> Param" where
  "refresh_param ss p =
     (case referred_section_key p of
        None \<Rightarrow> p
      | Some referred_key \<Rightarrow> p\<lparr>p_value := settings_value ss referred_key\<rparr>)"

definition refresh :: "Config \<Rightarrow> Config" where
  "refresh c =
     c\<lparr>sections :=
         map (\<lambda>s. if attached s
                  then s\<lparr>params := map (refresh_param (live_sections c)) (params s)\<rparr> else s)
           (sections c)\<rparr>"

text \<open>
  Modelled from the spec: the setter of \<open>label\<close>, for the section object at position
  \<open>n\<close>. The configuration maps the labels of a key to its sections, so the relabelled
  section is stored under its new label, in the place of a section of its key that has
  this label already: that section is not in the configuration any more. Relabelling an
  object that is not in the configuration changes the object only.
\<close>

definition set_label :: "Config \<Rightarrow> nat \<Rightarrow> string \<Rightarrow> Config" where
  "set_label c n new_label =
     (let s = sections c ! n
      in if attached s
         then refresh (c\<lparr>sections :=
                (map (\<lambda>x. if attached x \<and> key x = key s \<and> label x = new_label
                          then x\<lparr>attached := False\<rparr> else x)
                   (sections c))[n := s\<lparr>label := new_label\<rparr>]\<rparr>)
         else c\<lparr>sections := (sections c)[n := s\<lparr>label := new_label\<rparr>]\<rparr>)"

text \<open>
  Modelled from the spec: \<open>add_section\<close> stores the section under its key and label, in
  the place of a section that has both already.
\<close>

definition add_section :: "Config \<Rightarrow> Section \<Rightarrow> Config" where
  "add_section c section =
     refresh (c\<lparr>sections :=
       (if \<exists>s \<in> set (live_sections c). key s = key section \<and> label s = label section
        then map (\<lambda>s. if attached s \<and> key s = key section \<and> label s = label section
                      then section else s) (sections c)
        else sections c @ [section])\<rparr>)"

text \<open>
  Modelled from the spec: \<open>remove_section\<close> with a label removes that section; without a
  label it removes the only section of the key, and raises when the key has several
  (\<open>test_runtime.py\<close>: removing multiple sections by key raises).
\<close>

definition remove_section :: "Config \<Rightarrow> string \<Rightarrow> string option \<Rightarrow> error + Config" where
  "remove_section c section_key section_label =
     (case section_label of
        Some l \<Rightarrow>
          Inr (refresh (c\<lparr>sections := filter (\<lambda>s. \<not> (key s = section_key \<and> label s = l)) (sections c)\<rparr>))
      | None \<Rightarrow>
          (if get_sections c section_key = [] then Inr c
           else if length (get_sections c section_key) > 1
           then Inl (Exception (''More than one section with key '' @ section_key))
           else Inr (refresh (c\<lparr>sections := filter (\<lambda>s. key s \<noteq> section_key) (sections c)\<rparr>))))"

section \<open>config\_patch.py: adaptation\<close>

record Change =
  section_key :: string
  section_label :: string
  param_key :: string
  old_value :: pyval
  new_value :: pyval
  update_policy :: UpdatePolicy

definition IGNORED_SECTIONS :: "string list" where
  "IGNORED_SECTIONS = [''global'', ''aliases'']"

text \<open>\<open>_remove_ignored_sections\<close>: the loop over the ignored keys.\<close>

fun remove_sections_by_key :: "string list \<Rightarrow> Config \<Rightarrow> error + Config" where
  "remove_sections_by_key [] config = Inr config"
| "remove_sections_by_key (skey # ks) config =
     (case remove_section config skey None of
        Inl e \<Rightarrow> Inl e
      | Inr config' \<Rightarrow> remove_sections_by_key ks config')"

definition remove_ignored_sections :: "Config \<Rightarrow> error + Config" where
  "remove_ignored_sections config = remove_sections_by_key IGNORED_SECTIONS config"

text \<open>The positions of the sections of a key: the objects that \<open>get_sections(key)\<close> yields.\<close>

definition section_indices :: "Config \<Rightarrow> string \<Rightarrow> nat list" where
  "section_indices c skey =
     filter (\<lambda>n. attached (sections c ! n) \<and> key (sections c ! n) = skey)
       [0..<length (sections c)]"

text \<open>
  \<open>_rename_base_sections\<close>: for every key, the sections sorted by label get the labels
  \<open>_key\<close>, \<open>_key1\<close>, \<open>_key2\<close>, ...
\<close>

fun rename_loop :: "string \<Rightarrow> nat list \<Rightarrow> nat \<Rightarrow> Config \<Rightarrow> Config" where
  "rename_loop skey [] i base = base"
| "rename_loop skey (n # ns) i base =
     rename_loop skey ns (i + 1)
       (set_label base n (''_'' @ skey @ (if i > 0 then str_nat i else [])))"

definition rename_base_sections :: "Config \<Rightarrow> Config" where
  "rename_base_sections base =
     fold (\<lambda>skey b.
             rename_loop skey
               (sort_key (\<lambda>n. label (sections b ! n)) (section_indices b skey)) 0 b)
       (get_section_keys base) base"

text \<open>
  \<open>_create_default_section\<close>: returns the changed configuration and the new section.
  The reference to its parent configuration that the new section is given is not modelled.
\<close>

definition create_default_section :: "Config \<Rightarrow> Section \<Rightarrow> Config \<times> Section" where
  "create_default_section config section =
     (let mock_section = Section_init section (label section);
          mock_section = (if truthy_str (key_param section)
                          then mock_section\<lparr>mock := True\<rparr> else mock_section)
      in (add_section config mock_section, mock_section))"

text \<open>\<open>_get_target_section_by_param\<close>: the first section of the key with that parameter value.\<close>

definition get_target_section_by_param ::
  "Config \<Rightarrow> string \<Rightarrow> string \<Rightarrow> pyval \<Rightarrow> Section option" where
  "get_target_section_by_param target skey pkey param_value =
     find (\<lambda>s. case get_param s pkey of
                 None \<Rightarrow> False
               | Some param \<Rightarrow> py_eq (p_value param) param_value)
       (get_sections target skey)"

text \<open>\<open>_get_target_section\<close>.\<close>

definition get_target_section :: "Config \<Rightarrow> Section \<Rightarrow> Config \<times> Section" where
  "get_target_section target base_section =
     (let section =
            (if truthy_str (key_param base_section)
             then get_target_section_by_param target (key base_section)
                    (the (key_param base_section))
                    (get_param_value base_section (the (key_param base_section)))
             else (let secs = get_sections target (key base_section)
                   in if length secs = 1 then Some (hd secs) else None))
      in case section of
           None \<Rightarrow> create_default_section target base_section
         | Some s \<Rightarrow> (target, s))"

text \<open>\<open>_get_base_section\<close>.\<close>

definition get_base_section :: "Config \<Rightarrow> Section \<Rightarrow> Config \<times> Section" where
  "get_base_section base target_section =
     (case get_section base (key target_section) (Some (label target_section)) of
        None \<Rightarrow> create_default_section base target_section
      | Some s \<Rightarrow> (base, s))"

text \<open>
  The first loop of \<open>_adapt\<close>: every base section is matched and takes the label of
  its target section. The state is the pair of the base and the target configuration.
\<close>

fun match_loop :: "nat list \<Rightarrow> Config \<times> Config \<Rightarrow> Config \<times> Config" where
  "match_loop [] (base, target) = (base, target)"
| "match_loop (n # ns) (base, target) =
     (let (target', target_section) = get_target_section target (sections base ! n)
      in match_loop ns (set_label base n (label target_section), target'))"

definition match_base_sections :: "Config \<times> Config \<Rightarrow> Config \<times> Config" where
  "match_base_sections bt =
     fold (\<lambda>skey (b, t). match_loop (section_indices b skey) (b, t))
       (get_section_keys (fst bt)) bt"

text \<open>The second loop of \<open>_adapt\<close>: the missing sections are created in the base.\<close>

definition create_missing_base_sections :: "Config \<Rightarrow> Config \<Rightarrow> Config" where
  "create_missing_base_sections base target =
     fold (\<lambda>skey b.
             fold (\<lambda>target_section b'. fst (get_base_section b' target_section))
               (get_sections target skey) b)
       (get_section_keys target) base"

text \<open>\<open>_adapt\<close>, on the base and the target configuration of the patch.\<close>

definition adapt :: "Config \<times> Config \<Rightarrow> error + Config \<times> Config" where
  "adapt bt =
     (case remove_ignored_sections (fst bt) of
        Inl e \<Rightarrow> Inl e
      | Inr base1 \<Rightarrow>
          (case remove_ignored_sections (snd bt) of
             Inl e \<Rightarrow> Inl e
           | Inr target1 \<Rightarrow>
               (let base2 = rename_base_sections base1;
                    (base3, target3) = match_base_sections (base2, target1)
                in Inr (create_missing_base_sections base3 target3, target3))))"

section \<open>config\_patch.py: comparison\<close>

text \<open>
  \<open>_compare_section\<close>. The base value of a parameter is \<open>None\<close> when there is no base
  section; with a base section, \<open>.value\<close> is read from what \<open>get_param\<close> returns, which
  raises \<open>AttributeError\<close> on \<open>None\<close>. \<open>make_change\<close> is the call of \<open>Change\<close>, and
  \<open>compare_params\<close> the loop over the parameters of the target section.
\<close>

definition base_value_of :: "Section option \<Rightarrow> Param \<Rightarrow> error + pyval" where
  "base_value_of base_section param =
     (case base_section of
        None \<Rightarrow> Inr PNone
      | Some b \<Rightarrow> (case get_param b (p_key param) of
                     None \<Rightarrow> Inl AttributeError
                   | Some base_param \<Rightarrow> Inr (p_value base_param)))"

definition make_change :: "Section \<Rightarrow> Param \<Rightarrow> pyval \<Rightarrow> Change" where
  "make_change target_section param base_value =
     \<lparr>section_key = key target_section, section_label = label target_section,
      param_key = p_key param, old_value = base_value, new_value = p_value param,
      update_policy = p_update_policy param\<rparr>"

fun compare_params ::
  "Section option \<Rightarrow> Section \<Rightarrow> Param list \<Rightarrow> Change list \<Rightarrow> error + Change list" where
  "compare_params base_section target_section [] chs = Inr chs"
| "compare_params base_section target_section (param # ps) chs =
     (case base_value_of base_section param of
        Inl e \<Rightarrow> Inl e
      | Inr base_value \<Rightarrow>
          (let target_value = p_value param
           in if py_ne base_value target_value
              then compare_params base_section target_section ps
                     (chs @ [make_change target_section param base_value])
              else compare_params base_section target_section ps chs))"

definition compare_section ::
  "Section option \<Rightarrow> Section option \<Rightarrow> Change list \<Rightarrow> error + Change list" where
  "compare_section base_section target_section chs =
     (case target_section of
        None \<Rightarrow> Inl AttributeError
      | Some t \<Rightarrow> compare_params base_section t (params t) chs)"




text \<open>\<open>_remove_mock_sections\<close>.\<close>

fun remove_mock_loop :: "Section list \<Rightarrow> Config \<Rightarrow> error + Config" where
  "remove_mock_loop [] config = Inr config"
| "remove_mock_loop (s # ss) config =
     (if mock s
      then (case remove_section config (key s) (Some (label s)) of
              Inl e \<Rightarrow> Inl e
            | Inr config' \<Rightarrow> remove_mock_loop ss config')
      else remove_mock_loop ss config)"

fun remove_mock_keys :: "string list \<Rightarrow> Config \<Rightarrow> error + Config" where
  "remove_mock_keys [] config = Inr config"
| "remove_mock_keys (skey # ks) config =
     (case remove_mock_loop (sort_key label (get_sections config skey)) config of
        Inl e \<Rightarrow> Inl e
      | Inr config' \<Rightarrow> remove_mock_keys ks config')"

definition remove_mock_sections :: "Config \<Rightarrow> error + Config" where
  "remove_mock_sections config = remove_mock_keys (get_section_keys config) config"

text \<open>The first loop of \<open>_compare\<close>: all sections except the ones of key \<open>cluster\<close>.\<close>

fun compare_sections_loop :: "Config \<Rightarrow> Section list \<Rightarrow> Change list \<Rightarrow> error + Change list" where
  "compare_sections_loop base [] chs = Inr chs"
| "compare_sections_loop base (target_section # ts) chs =
     (case compare_section (get_section base (key target_section) (Some (label target_section)))
             (Some target_section) chs of
        Inl e \<Rightarrow> Inl e
      | Inr chs' \<Rightarrow> compare_sections_loop base ts chs')"

fun compare_keys_loop :: "Config \<Rightarrow> Config \<Rightarrow> string list \<Rightarrow> Change list \<Rightarrow> error + Change list" where
  "compare_keys_loop base target [] chs = Inr chs"
| "compare_keys_loop base target (skey # ks) chs =
     (if skey \<noteq> ''cluster''
      then (case compare_sections_loop base (get_sections target skey) chs of
              Inl e \<Rightarrow> Inl e
            | Inr chs' \<Rightarrow> compare_keys_loop base target ks chs')
      else compare_keys_loop base target ks chs)"

text \<open>
  \<open>_compare\<close>: returns the two configurations, without their mock sections, and the changes.
\<close>

definition compare :: "Config \<times> Config \<Rightarrow> Change list \<Rightarrow> error + (Config \<times> Config) \<times> Change list" where
  "compare bt chs =
     (case compare_keys_loop (fst bt) (snd bt) (get_section_keys (snd bt)) chs of
        Inl e \<Rightarrow> Inl e
      | Inr chs1 \<Rightarrow>
          (case remove_mock_sections (fst bt) of
             Inl e \<Rightarrow> Inl e
           | Inr base' \<Rightarrow>
               (case remove_mock_sections (snd bt) of
                  Inl e \<Rightarrow> Inl e
                | Inr target' \<Rightarrow>
                    (case compare_section (get_section base' ''cluster'' None)
                            (get_section target' ''cluster'' None) chs1 of
                       Inl e \<Rightarrow> Inl e
                     | Inr chs2 \<Rightarrow> Inr ((base', target'), chs2)))))"

section \<open>config\_patch.py: the patch object\<close>

text \<open>
  Configurations are mutable objects. The store holds the configuration objects that
  exist, a reference is a position in it. \<open>copy.deepcopy\<close> allocates a new object with
  the same contents; the patch keeps references to its two copies.
\<close>

type_synonym store = "Config list"

record ConfigPatch =
  base_config :: nat
  target_config :: nat
  changes :: "Change list"

definition deepcopy :: "store \<Rightarrow> nat \<Rightarrow> store \<times> nat" where
  "deepcopy st r = (st @ [st ! r], length st)"

text \<open>
  \<open>ConfigPatch.__init__\<close>: returns the store it leaves behind, and the new patch or the
  exception that \<open>_adapt\<close> or \<open>_compare\<close> raised. The attribute \<open>condition_results\<close>,
  which nothing reads, is left out.
\<close>

definition ConfigPatch_init :: "store \<Rightarrow> nat \<Rightarrow> nat \<Rightarrow> store \<times> (error + ConfigPatch)" where
  "ConfigPatch_init st0 base_ref target_ref =
     (let (st1, b) = deepcopy st0 base_ref;
          (st2, t) = deepcopy st1 target_ref
      in case adapt (st2 ! b, st2 ! t) of
           Inl e \<Rightarrow> (st2, Inl e)
         | Inr (base', target') \<Rightarrow>
             (let st3 = st2[b := base', t := target']
              in case compare (st3 ! b, st3 ! t) [] of
                   Inl e \<Rightarrow> (st3, Inl e)
                 | Inr ((base'', target''), chs) \<Rightarrow>
                     (st3[b := base'', t := target''],
                      Inr \<lparr>base_config = b, target_config = t, changes = chs\<rparr>)))"

text \<open>\<open>update_policy_level\<close>. Python's \<open>max\<close> keeps the first of the largest items.\<close>

fun py_max :: "int \<Rightarrow> int list \<Rightarrow> int" where
  "py_max m [] = m"
| "py_max m (x # xs) = py_max (if x > m then x else m) xs"

definition update_policy_level :: "ConfigPatch \<Rightarrow> int" where
  "update_policy_level self =
     (case changes self of
        [] \<Rightarrow> level ALLOWED
      | change # cs \<Rightarrow> py_max (level (update_policy change)) (map (\<lambda>c. level (update_policy c)) cs))"

text \<open>
  \<open>ConfigPatch.check\<close>. A report row is a list of Python values; the remediation texts
  are collected in a set.
\<close>

definition header_row :: "pyval list" where
  "header_row = map PStr [''section'', ''parameter'', ''old value'', ''new value'', ''check'', ''reason'']"

definition section_descriptor :: "Change \<Rightarrow> string" where
  "section_descriptor change =
     section_key change
     @ (if section_label change \<noteq> [] then '' '' else [])
     @ (if section_label change \<noteq> [] then section_label change else [])"

definition report_row :: "Change \<Rightarrow> CheckResult \<Rightarrow> pyval \<Rightarrow> pyval list" where
  "report_row change check_result reason =
     [PStr (section_descriptor change), PStr (param_key change), old_value change,
      new_value change, PStr (CheckResult_value check_result), reason]"

definition pyval_of_str :: "string option \<Rightarrow> pyval" where
  "pyval_of_str x = (case x of None \<Rightarrow> PNone | Some s \<Rightarrow> PStr s)"

text \<open>
  The two \<open>replace\<close> calls on the action text: \<open>target_file\<close> is
  \<open>self.target_config.config_file\<close>, \<open>base_file\<close> is \<open>self.base_config.config_file\<close>.
\<close>

definition substitute_placeholders :: "string \<Rightarrow> string \<Rightarrow> string \<Rightarrow> string" where
  "substitute_placeholders target_file base_file action =
     str_replace ''$CLUSTER_NAME'' base_file (str_replace ''$CONFIG_FILE'' target_file action)"

type_synonym check_state = "bool \<times> pyval list list \<times> string set"

text \<open>One iteration of the loop of \<open>check\<close>, on \<open>(patch_allowed, rows, actions_needed)\<close>.\<close>

definition check_change ::
  "string \<Rightarrow> string \<Rightarrow> string \<Rightarrow> Change \<Rightarrow> check_state \<Rightarrow> error + check_state" where
  "check_change target_file base_file stack_name change state =
     (case state of (patch_allowed, rows, actions_needed) \<Rightarrow>
        if UpdatePolicy_ne (update_policy change) IGNORED
        then (case UpdatePolicy_check (update_policy change) stack_name of
                Inl e \<Rightarrow> Inl e
              | Inr check_result \<Rightarrow>
                  if check_result \<noteq> SUCCEEDED
                  then Inr (False,
                            rows @ [report_row change check_result
                                      (pyval_of_str (fail_reason (update_policy change)))],
                            (if truthy_str (action_needed (update_policy change))
                             then insert (substitute_placeholders target_file base_file
                                            (the (action_needed (update_policy change))))
                                    actions_needed
                             else actions_needed))
                  else Inr (patch_allowed,
                            rows @ [report_row change check_result (PStr ''-'')],
                            actions_needed))
        else Inr state)"

fun check_loop ::
  "string \<Rightarrow> string \<Rightarrow> string \<Rightarrow> Change list \<Rightarrow> check_state \<Rightarrow> error + check_state" where
  "check_loop target_file base_file stack_name [] state = Inr state"
| "check_loop target_file base_file stack_name (change # cs) state =
     (case check_change target_file base_file stack_name change state of
        Inl e \<Rightarrow> Inl e
      | Inr state' \<Rightarrow> check_loop target_file base_file stack_name cs state')"

definition ConfigPatch_check :: "store \<Rightarrow> ConfigPatch \<Rightarrow> string \<Rightarrow> error + check_state" where
  "ConfigPatch_check st self stack_name =
     check_loop (config_file (st ! target_config self)) (config_file (st ! base_config self))
       stack_name (changes self) (True, [header_row], {})"

section \<open>Statements about \<open>check\<close>\<close>

text \<open>
  The notions used to state what \<open>check\<close> returns: a change is reported when its policy
  is not equal to \<open>IGNORED\<close>; its row shows the result of its policy check and, unless
  that succeeded, the fail reason of the policy; it contributes a remediation text when
  its check did not succeed and its policy has a non-empty \<open>action_needed\<close>.
\<close>

definition expected_row :: "string \<Rightarrow> Change \<Rightarrow> pyval list" where
  "expected_row stack_name change =
     (let check_result = projr (UpdatePolicy_check (update_policy change) stack_name)
      in report_row change check_result
           (if check_result = SUCCEEDED then PStr ''-''
            else pyval_of_str (fail_reason (update_policy change))))"

definition reported :: "Change \<Rightarrow> bool" where
  "reported change = UpdatePolicy_ne (update_policy change) IGNORED"

definition contributes_action :: "string \<Rightarrow> Change \<Rightarrow> bool" where
  "contributes_action stack_name change =
     (reported change \<and> UpdatePolicy_check (update_policy change) stack_name \<noteq> Inr SUCCEEDED
      \<and> truthy_str (action_needed (update_policy change)))"

definition remediation :: "string \<Rightarrow> string \<Rightarrow> Change \<Rightarrow> string" where
  "remediation tf bf change = substitute_placeholders tf bf (the (action_needed (update_policy change)))"

section \<open>Example patches\<close>

text \<open>
  A store with two configuration objects that were loaded from the same file, changes
  with the base policies, and live queries that answer or fail.
\<close>

definition example_config :: "string \<Rightarrow> Config" where
  "example_config file = \<lparr>config_file = file, sections = []\<rparr>"

definition example_store :: store where
  "example_store = [example_config ''/home/user/.parallelcluster/config'',
                    example_config ''/home/user/.parallelcluster/config'']"

definition busy_fleet :: "string \<Rightarrow> error + string list" where
  "busy_fleet stack_name = Inr [''i-0123456789abcdef0'']"

definition unreachable_fleet :: "string \<Rightarrow> error + string list" where
  "unreachable_fleet stack_name = Inl (Exception ''Unable to locate credentials'')"

definition change_queue_size :: "(string \<Rightarrow> error + string list) \<Rightarrow> Change" where
  "change_queue_size fleet =
     \<lparr>section_key = ''cluster'', section_label = ''default'', param_key = ''initial_queue_size'',
      old_value = PInt 0, new_value = PInt 1, update_policy = COMPUTE_FLEET_RESTART fleet\<rparr>"

definition change_subnet :: Change where
  "change_subnet =
     \<lparr>section_key = ''vpc'', section_label = ''default'', param_key = ''master_subnet_id'',
      old_value = PStr ''subnet-12345678'', new_value = PStr ''subnet-1234567a'',
      update_policy = DENIED\<rparr>"

definition change_sg :: Change where
  "change_sg =
     \<lparr>section_key = ''vpc'', section_label = ''default'', param_key = ''additional_sg'',
      old_value = PStr ''sg-12345678'', new_value = PStr ''sg-1234567a'',
      update_policy = ALLOWED\<rparr>"

definition change_ignored :: Change where
  "change_ignored =
     \<lparr>section_key = ''cluster'', section_label = ''default'', param_key = ''template_url'',
      old_value = PNone, new_value = PStr ''https://example.com/t.json'',
      update_policy = IGNORED\<rparr>"

definition example_patch :: "Change list \<Rightarrow> ConfigPatch" where
  "example_patch chs = \<lparr>base_config = 0, target_config = 1, changes = chs\<rparr>"

definition running_master :: "string \<Rightarrow> error + string" where
  "running_master stack_name = Inr ''running''"

definition change_master :: Change where
  "change_master =
     \<lparr>section_key = ''cluster'', section_label = ''default'', param_key = ''master_instance_type'',
      old_value = PStr ''t2.micro'', new_value = PStr ''c4.xlarge'',
      update_policy = MASTER_RESTART running_master\<rparr>"

section \<open>Statements about adaptation and comparison\<close>

text \<open>
  A section is identified in a configuration by its key and its label; \<open>section_ids\<close> is
  the set of the (key, label) pairs of the sections of a configuration, \<open>id_at\<close> the pair
  of the section object at a position, \<open>skeleton\<close> lists the key, the label and the mock
  flag of every section of a configuration, and \<open>mock_ids\<close> is the set of the pairs of its
  mock sections. \<open>unique_ids\<close> is the invariant of a configuration: no two of its sections
  have the same key and label.
\<close>

definition section_id :: "Section \<Rightarrow> string \<times> string" where
  "section_id s = (key s, label s)"

definition section_ids :: "Config \<Rightarrow> (string \<times> string) set" where
  "section_ids c = set (map section_id (live_sections c))"

definition id_at :: "Config \<Rightarrow> nat \<Rightarrow> string \<times> string" where
  "id_at c n = section_id (sections c ! n)"

definition skeleton :: "Config \<Rightarrow> (string \<times> string \<times> bool) list" where
  "skeleton c = map (\<lambda>s. (key s, label s, mock s)) (live_sections c)"

definition mock_ids :: "Config \<Rightarrow> (string \<times> string) set" where
  "mock_ids c = set (map section_id (filter mock (live_sections c)))"

definition unique_ids :: "Config \<Rightarrow> bool" where
  "unique_ids c = distinct (map section_id (live_sections c))"

text \<open>
  The settings parameters of a configuration are up to date when each of them holds the
  sorted, comma-joined labels of the non-mock sections of the key it refers to.
\<close>

definition settings_fresh :: "Config \<Rightarrow> bool" where
  "settings_fresh c =
     (\<forall>s \<in> set (live_sections c). \<forall>p \<in> set (params s).
        case referred_section_key p of
          None \<Rightarrow> True
        | Some referred_key \<Rightarrow>
            p_value p = PStr (str_join '','' (sort (map label
                          (filter (\<lambda>s. key s = referred_key \<and> \<not> mock s) (live_sections c))))))"

text \<open>A change without its policy.\<close>

definition change_summary :: "Change \<Rightarrow> string \<times> string \<times> string \<times> pyval \<times> pyval" where
  "change_summary c = (section_key c, section_label c, param_key c, old_value c, new_value c)"

section \<open>Example configurations\<close>

text \<open>
  The configurations of \<open>tests/pcluster/config/test_config_patch.py\<close>, cut down to a few
  parameters: a cluster section with a queue size and the settings parameter
  \<open>ebs_settings\<close>, a vpc section, and ebs sections, which are matched by \<open>shared_dir\<close>.
  The base has the ebs sections \<open>ebs-1\<close> and \<open>ebs-2\<close>, the target only \<open>ebs-2\<close>.
\<close>

definition plain_param :: "string \<Rightarrow> pyval \<Rightarrow> UpdatePolicy \<Rightarrow> Param" where
  "plain_param k v policy =
     \<lparr>p_key = k, p_value = v, p_update_policy = policy, referred_section_key = None\<rparr>"

definition ebs_settings_policy :: UpdatePolicy where
  "ebs_settings_policy =
     UpdatePolicy_init (Some DENIED) None (Some ''Cannot add/remove EBS Sections'') None None"

definition ebs_settings_param :: "pyval \<Rightarrow> Param" where
  "ebs_settings_param v =
     \<lparr>p_key = ''ebs_settings'', p_value = v, p_update_policy = ebs_settings_policy,
      referred_section_key = Some ''ebs''\<rparr>"

definition cluster_section :: "int \<Rightarrow> pyval \<Rightarrow> Section" where
  "cluster_section queue_size ebs_settings =
     \<lparr>key = ''cluster'', label = ''default'',
      params = [plain_param ''initial_queue_size'' (PInt queue_size) (COMPUTE_FLEET_RESTART busy_fleet),
                ebs_settings_param ebs_settings],
      key_param = None, mock = False,
      default_params = [plain_param ''initial_queue_size'' (PInt 0) (COMPUTE_FLEET_RESTART busy_fleet),
                        ebs_settings_param PNone],
      attached = True\<rparr>"

definition ebs_section :: "string \<Rightarrow> string \<Rightarrow> Section" where
  "ebs_section lbl shared_dir =
     \<lparr>key = ''ebs'', label = lbl,
      params = [plain_param ''shared_dir'' (PStr shared_dir) DENIED,
                plain_param ''volume_size'' (PInt 20) DENIED],
      key_param = Some ''shared_dir'', mock = False,
      default_params = [plain_param ''shared_dir'' PNone DENIED,
                        plain_param ''volume_size'' (PInt 20) DENIED],
      attached = True\<rparr>"

definition vpc_section :: "string \<Rightarrow> string \<Rightarrow> Section" where
  "vpc_section lbl subnet =
     \<lparr>key = ''vpc'', label = lbl,
      params = [plain_param ''master_subnet_id'' (PStr subnet) DENIED],
      key_param = None, mock = False,
      default_params = [plain_param ''master_subnet_id'' PNone DENIED],
      attached = True\<rparr>"

definition global_section :: Section where
  "global_section =
     \<lparr>key = ''global'', label = ''default'',
      params = [plain_param ''cluster_template'' (PStr ''default'') ALLOWED],
      key_param = None, mock = False,
      default_params = [plain_param ''cluster_template'' (PStr ''default'') ALLOWED],
      attached = True\<rparr>"

definition base_two_ebs :: Config where
  "base_two_ebs =
     \<lparr>config_file = ''/home/user/.parallelcluster/config'',
      sections = [cluster_section 0 (PStr ''ebs-1,ebs-2''), vpc_section ''default'' ''subnet-12345678'',
                  ebs_section ''ebs-1'' ''vol1'', ebs_section ''ebs-2'' ''vol2'']\<rparr>"

definition target_one_ebs :: Config where
  "target_one_ebs =
     \<lparr>config_file = ''/home/user/.parallelcluster/config'',
      sections = [global_section, cluster_section 0 (PStr ''ebs-2''),
                  vpc_section ''default'' ''subnet-12345678'', ebs_section ''ebs-2'' ''vol2'']\<rparr>"

definition example_ebs :: "Config \<times> Config" where
  "example_ebs = (base_two_ebs, target_one_ebs)"

definition example_ebs_store :: store where
  "example_ebs_store = [base_two_ebs, target_one_ebs]"



text \<open>A target with two sections of the key \<open>vpc\<close>, which has no \<open>key_param\<close>.\<close>

definition base_one_vpc :: Config where
  "base_one_vpc =
     \<lparr>config_file = ''/home/user/.parallelcluster/config'',
      sections = [cluster_section 0 PNone, vpc_section ''default'' ''subnet-12345678'']\<rparr>"

definition target_two_vpcs :: Config where
  "target_two_vpcs =
     \<lparr>config_file = ''/home/user/.parallelcluster/config'',
      sections = [cluster_section 0 PNone, vpc_section ''public'' ''subnet-12345678'',
                  vpc_section ''private'' ''subnet-87654321'']\<rparr>"

definition example_vpc_store :: store where
  "example_vpc_store = [base_one_vpc, target_two_vpcs]"



text \<open>A target with two sections of the ignored key \<open>global\<close>.\<close>

definition target_two_globals :: Config where
  "target_two_globals =
     \<lparr>config_file = ''/home/user/.parallelcluster/config'',
      sections = [global_section, global_section\<lparr>label := ''other''\<rparr>, cluster_section 0 PNone,
                  vpc_section ''default'' ''subnet-12345678'']\<rparr>"

text \<open>Two configurations without a cluster section.\<close>

definition example_no_cluster_store :: store where
  "example_no_cluster_store =
     [\<lparr>config_file = ''/home/user/.parallelcluster/config'',
       sections = [vpc_section ''default'' ''subnet-12345678'']\<rparr>,
      \<lparr>config_file = ''/home/user/.parallelcluster/config'',
       sections = [vpc_section ''public'' ''subnet-12345678'',
                   vpc_section ''private'' ''subnet-87654321'']\<rparr>]"

text \<open>A base with two vpc sections and a target with none.\<close>

definition example_two_base_vpcs_store :: store where
  "example_two_base_vpcs_store =
     [\<lparr>config_file = ''/home/user/.parallelcluster/config'',
       sections = [cluster_section 0 PNone, vpc_section ''public'' ''subnet-12345678'',
                   vpc_section ''private'' ''subnet-87654321'']\<rparr>,
      \<lparr>config_file = ''/home/user/.parallelcluster/config'',
       sections = [cluster_section 0 PNone]\<rparr>]"

definition example_globals_store :: store where
  "example_globals_store = [base_one_vpc, target_two_globals]"

section \<open>The loop of \<open>check\<close>\<close>

lemma check_change_Inr:
  assumes "check_change tf bf s c (a, rows, acts) = Inr st'"
  shows "st' = (a \<and> (reported c \<longrightarrow> UpdatePolicy_check (update_policy c) s = Inr SUCCEEDED),
                rows @ (if reported c then [expected_row s c] else []),
                acts \<union> (if contributes_action s c then {remediation tf bf c} else {}))"
  using assms
  by (auto simp: check_change_def reported_def contributes_action_def expected_row_def remediation_def
           split: sum.splits if_splits)

lemma check_change_Inl:
  "(\<exists>e. check_change tf bf s c st = Inl e) \<longleftrightarrow>
   (reported c \<and> (\<exists>e. UpdatePolicy_check (update_policy c) s = Inl e))"
  by (cases st) (auto simp: check_change_def reported_def split: sum.splits if_splits)

lemma check_loop_Inr:
  "check_loop tf bf s cs (a, rows, acts) = Inr (a', rows', acts') \<Longrightarrow>
     (a' \<longleftrightarrow> a \<and> (\<forall>c \<in> set cs. reported c \<longrightarrow> UpdatePolicy_check (update_policy c) s = Inr SUCCEEDED))
   \<and> rows' = rows @ map (expected_row s) (filter reported cs)
   \<and> acts' = acts \<union> set (map (remediation tf bf) (filter (contributes_action s) cs))"
proof (induction cs arbitrary: a rows acts)
  case Nil
  then show ?case by simp
next
  case (Cons c cs)
  from Cons.prems obtain st1 where
    step: "check_change tf bf s c (a, rows, acts) = Inr st1" and
    rest: "check_loop tf bf s cs st1 = Inr (a', rows', acts')"
    by (auto split: sum.splits)
  note st1 = check_change_Inr[OF step]
  from rest have ih: "(a' \<longleftrightarrow> (a \<and> (reported c \<longrightarrow> UpdatePolicy_check (update_policy c) s = Inr SUCCEEDED))
        \<and> (\<forall>c \<in> set cs. reported c \<longrightarrow> UpdatePolicy_check (update_policy c) s = Inr SUCCEEDED))
   \<and> rows' = (rows @ (if reported c then [expected_row s c] else [])) @ map (expected_row s) (filter reported cs)
   \<and> acts' = (acts \<union> (if contributes_action s c then {remediation tf bf c} else {}))
                \<union> set (map (remediation tf bf) (filter (contributes_action s) cs))"
    unfolding st1 by (rule Cons.IH)
  then show ?case by auto
qed

lemma check_loop_Inl:
  "(\<exists>e. check_loop tf bf s cs st = Inl e) \<longleftrightarrow>
   (\<exists>c \<in> set cs. reported c \<and> (\<exists>e. UpdatePolicy_check (update_policy c) s = Inl e))"
proof (induction cs arbitrary: st)
  case Nil
  then show ?case by simp
next
  case (Cons c cs)
  show ?case
  proof (cases "check_change tf bf s c st")
    case (Inl e)
    then have "reported c \<and> (\<exists>e. UpdatePolicy_check (update_policy c) s = Inl e)"
      using check_change_Inl[of tf bf s c st] by auto
    with Inl show ?thesis by auto
  next
    case (Inr st1)
    then have "\<not> (reported c \<and> (\<exists>e. UpdatePolicy_check (update_policy c) s = Inl e))"
      using check_change_Inl[of tf bf s c st] by auto
    with Inr Cons.IH[of st1] show ?thesis by auto
  qed
qed

lemma check_loop_skips_ignored:
  "check_loop tf bf s (filter reported cs) st = check_loop tf bf s cs st"
proof (induction cs arbitrary: st)
  case Nil
  then show ?case by simp
next
  case (Cons c cs)
  show ?case
  proof (cases "reported c")
    case True
    with Cons show ?thesis by (auto split: sum.splits)
  next
    case False
    then have "check_change tf bf s c st = Inr st"
      by (cases st) (simp add: check_change_def reported_def)
    with False Cons show ?thesis by simp
  qed
qed

lemma UpdatePolicy_check_cases:
  "(UpdatePolicy_check pol s = Inr SUCCEEDED \<longleftrightarrow> (\<exists>f. condition_checker pol = Some f \<and> f s = Inr True))
 \<and> (UpdatePolicy_check pol s = Inr ACTION_NEEDED \<longleftrightarrow> (\<exists>f. condition_checker pol = Some f \<and> f s = Inr False))
 \<and> (UpdatePolicy_check pol s = Inr FAILED \<longleftrightarrow> condition_checker pol = None)"
  by (auto simp: UpdatePolicy_check_def split: option.splits sum.splits)

lemma py_max_Max: "py_max m xs = Max (set (m # xs))"
proof (induction xs arbitrary: m)
  case Nil
  then show ?case by simp
next
  case (Cons x xs)
  have "Max (insert (if m < x then x else m) (set xs)) = Max (insert m (insert x (set xs)))"
    by (cases "set xs = {}") (auto simp: max_def Max_insert)
  with Cons show ?case by simp 
qed

lemma check_loop_first_exception:
  assumes "\<forall>c' \<in> set cs1. reported c' \<longrightarrow> (\<exists>r. UpdatePolicy_check (update_policy c') s = Inr r)"
    and "reported c" and "UpdatePolicy_check (update_policy c) s = Inl e"
  shows "check_loop tf bf s (cs1 @ c # cs2) st = Inl e"
  using assms(1)
proof (induction cs1 arbitrary: st)
  case Nil
  from assms(2,3) show ?case
    by (cases st) (simp add: check_change_def reported_def)
next
  case (Cons d ds)
  have "\<not> (\<exists>e. check_change tf bf s d st = Inl e)"
    using Cons.prems check_change_Inl[of tf bf s d st] by auto
  then obtain st1 where "check_change tf bf s d st = Inr st1"
    by (cases "check_change tf bf s d st") auto
  with Cons show ?case by simp
qed

lemmas policy_defs = UpdatePolicy_init_def IGNORED_def ALLOWED_def DENIED_def UNKNOWN_def
  COMPUTE_FLEET_RESTART_def MASTER_RESTART_def UpdatePolicy_ne_def UpdatePolicy_eq_def
  UpdatePolicy_check_def

lemmas example_defs = example_patch_def example_store_def example_config_def
  change_queue_size_def change_subnet_def change_sg_def change_ignored_def change_master_def
  busy_fleet_def unreachable_fleet_def running_master_def

section \<open>Claims about the patch evaluator\<close>

text \<open>
  Claim C1. \<open>check\<close> returns \<open>allowed = True\<close> if and only if the policy check of every
  change whose policy is not \<open>IGNORED\<close> returns \<open>SUCCEEDED\<close>. The changes whose policy
  equals \<open>IGNORED\<close> are skipped: \<open>check\<close> returns the same with and without them. The
  rows are the header and one row for each remaining change, in the order of the changes,
  and the remediation texts are returned as a set, so each appears once.
\<close>

theorem check_verdict:
  "((\<exists>rows acts. ConfigPatch_check st p s = Inr (True, rows, acts)) \<longleftrightarrow>
      (\<forall>c \<in> set (changes p). reported c \<longrightarrow> UpdatePolicy_check (update_policy c) s = Inr SUCCEEDED))
   \<and> ConfigPatch_check st (p\<lparr>changes := filter reported (changes p)\<rparr>) s = ConfigPatch_check st p s
   \<and> (\<forall>allowed rows acts. ConfigPatch_check st p s = Inr (allowed, rows, acts) \<longrightarrow>
        rows = header_row # map (expected_row s) (filter reported (changes p))
        \<and> acts = set (map (remediation (config_file (st ! target_config p))
                                        (config_file (st ! base_config p)))
                       (filter (contributes_action s) (changes p))))"
proof (intro conjI allI impI iffI)
  assume "\<exists>rows acts. ConfigPatch_check st p s = Inr (True, rows, acts)"
  then obtain rows acts where "ConfigPatch_check st p s = Inr (True, rows, acts)" by blast
  from check_loop_Inr[OF this[unfolded ConfigPatch_check_def]]
  show "\<forall>c \<in> set (changes p). reported c \<longrightarrow> UpdatePolicy_check (update_policy c) s = Inr SUCCEEDED"
    by simp
next
  assume ok: "\<forall>c \<in> set (changes p). reported c \<longrightarrow> UpdatePolicy_check (update_policy c) s = Inr SUCCEEDED"
  then have "\<not> (\<exists>e. ConfigPatch_check st p s = Inl e)"
    unfolding ConfigPatch_check_def check_loop_Inl by auto
  then obtain a rows acts where r: "ConfigPatch_check st p s = Inr (a, rows, acts)"
    by (cases "ConfigPatch_check st p s") auto
  from check_loop_Inr[OF r[unfolded ConfigPatch_check_def]] ok have "a" by simp
  with r show "\<exists>rows acts. ConfigPatch_check st p s = Inr (True, rows, acts)" by auto
next
  show "ConfigPatch_check st (p\<lparr>changes := filter reported (changes p)\<rparr>) s = ConfigPatch_check st p s"
    by (simp add: ConfigPatch_check_def check_loop_skips_ignored)
next
  fix allowed rows acts
  assume r: "ConfigPatch_check st p s = Inr (allowed, rows, acts)"
  from check_loop_Inr[OF r[unfolded ConfigPatch_check_def]]
  show "rows = header_row # map (expected_row s) (filter reported (changes p))"
    and "acts = set (map (remediation (config_file (st ! target_config p))
                                        (config_file (st ! base_config p)))
                       (filter (contributes_action s) (changes p)))"
    by simp_all
qed

text \<open>
  An ignored change and an allowed one: the patch is allowed, the ignored change has no
  row, and the result is the one of the patch without the ignored change.
\<close>

theorem check_verdict_witness:
  "ConfigPatch_check example_store (example_patch [change_ignored, change_sg]) ''stack''
     = Inr (True, [header_row, [PStr ''vpc default'', PStr ''additional_sg'', PStr ''sg-12345678'',
                                PStr ''sg-1234567a'', PStr ''SUCCEEDED'', PStr ''-'']], {})
   \<and> ConfigPatch_check example_store (example_patch [change_sg]) ''stack''
     = ConfigPatch_check example_store (example_patch [change_ignored, change_sg]) ''stack''"
proof -
  let ?p = "example_patch [change_ignored, change_sg]"
  have rep: "\<not> reported change_ignored" "reported change_sg"
    by (simp_all add: reported_def policy_defs example_defs Let_def)
  have ok: "\<forall>c \<in> set (changes ?p). reported c \<longrightarrow> UpdatePolicy_check (update_policy c) ''stack'' = Inr SUCCEEDED"
    by (simp add: reported_def policy_defs example_defs Let_def)
  from check_verdict[of example_store ?p "''stack''"] ok
  obtain rows acts where r: "ConfigPatch_check example_store ?p ''stack'' = Inr (True, rows, acts)"
    by blast
  have f: "filter reported (changes ?p) = [change_sg]"
    using rep by (simp add: example_patch_def)
  have c: "filter (contributes_action ''stack'') (changes ?p) = []"
    by (simp add: contributes_action_def reported_def policy_defs example_defs Let_def)
  have row: "expected_row ''stack'' change_sg = [PStr ''vpc default'', PStr ''additional_sg'', PStr ''sg-12345678'',
                                PStr ''sg-1234567a'', PStr ''SUCCEEDED'', PStr ''-'']"
    by (simp add: expected_row_def report_row_def section_descriptor_def policy_defs example_defs Let_def)
  from check_verdict[of example_store ?p "''stack''"] r
  have "rows = header_row # map (expected_row ''stack'') (filter reported (changes ?p))"
    and "acts = set (map (remediation (config_file (example_store ! target_config ?p))
                                        (config_file (example_store ! base_config ?p)))
                       (filter (contributes_action ''stack'') (changes ?p)))"
    by blast+
  with r f c row have 1: "ConfigPatch_check example_store ?p ''stack''
     = Inr (True, [header_row, [PStr ''vpc default'', PStr ''additional_sg'', PStr ''sg-12345678'',
                                PStr ''sg-1234567a'', PStr ''SUCCEEDED'', PStr ''-'']], {})"
    by simp
  have "example_patch [change_sg] = ?p\<lparr>changes := filter reported (changes ?p)\<rparr>"
    using f by (simp add: example_patch_def)
  with check_verdict[of example_store ?p "''stack''"]
  have 2: "ConfigPatch_check example_store (example_patch [change_sg]) ''stack''
     = ConfigPatch_check example_store ?p ''stack''" by simp
  from 1 2 show ?thesis by simp
qed

text \<open>
  Claim C3. \<open>UpdatePolicy.check\<close> returns \<open>SUCCEEDED\<close> iff a condition checker is present
  and returns true, \<open>ACTION_NEEDED\<close> iff one is present and returns false, and \<open>FAILED\<close>
  iff there is none. A \<open>FAILED\<close> result does not abort \<open>ConfigPatch.check\<close>: when every
  reported change has no checker or one that returns, \<open>check\<close> returns a row for every
  reported change, and the row of a change without checker shows \<open>FAILED\<close>.
\<close>

theorem UpdatePolicy_check_result:
  "(UpdatePolicy_check pol s = Inr SUCCEEDED \<longleftrightarrow> (\<exists>f. condition_checker pol = Some f \<and> f s = Inr True))
   \<and> (UpdatePolicy_check pol s = Inr ACTION_NEEDED \<longleftrightarrow> (\<exists>f. condition_checker pol = Some f \<and> f s = Inr False))
   \<and> (UpdatePolicy_check pol s = Inr FAILED \<longleftrightarrow> condition_checker pol = None)
   \<and> ((\<forall>c \<in> set (changes p). reported c \<longrightarrow>
          condition_checker (update_policy c) = None
          \<or> (\<exists>f b. condition_checker (update_policy c) = Some f \<and> f s = Inr b))
       \<longrightarrow> (\<exists>allowed acts. ConfigPatch_check st p s =
              Inr (allowed, header_row # map (expected_row s) (filter reported (changes p)), acts)))
   \<and> (condition_checker (update_policy c) = None \<longrightarrow>
        expected_row s c = report_row c FAILED (pyval_of_str (fail_reason (update_policy c))))"
proof (intro conjI impI)
  assume noraise: "\<forall>c \<in> set (changes p). reported c \<longrightarrow>
          condition_checker (update_policy c) = None
          \<or> (\<exists>f b. condition_checker (update_policy c) = Some f \<and> f s = Inr b)"
  have "\<not> (\<exists>e. ConfigPatch_check st p s = Inl e)"
    unfolding ConfigPatch_check_def check_loop_Inl
  proof
    assume "\<exists>c\<in>set (changes p). reported c \<and> (\<exists>e. UpdatePolicy_check (update_policy c) s = Inl e)"
    then obtain c e where c: "c \<in> set (changes p)" "reported c"
      "UpdatePolicy_check (update_policy c) s = Inl e" by blast
    with noraise show False
      by (auto simp: UpdatePolicy_check_def split: option.splits sum.splits)
  qed
  then obtain a rows acts where r: "ConfigPatch_check st p s = Inr (a, rows, acts)"
    by (cases "ConfigPatch_check st p s") auto
  from check_loop_Inr[OF r[unfolded ConfigPatch_check_def]] r
  show "\<exists>allowed acts. ConfigPatch_check st p s =
              Inr (allowed, header_row # map (expected_row s) (filter reported (changes p)), acts)"
    by simp
next
  assume "condition_checker (update_policy c) = None"
  then show "expected_row s c = report_row c FAILED (pyval_of_str (fail_reason (update_policy c)))"
    by (simp add: expected_row_def UpdatePolicy_check_def)
qed (use UpdatePolicy_check_cases[of pol s] in simp_all)

text \<open>
  A denied change, whose policy has no checker, followed by an allowed one: both rows are
  returned.
\<close>

theorem UpdatePolicy_check_result_witness:
  "UpdatePolicy_check DENIED ''stack'' = Inr FAILED
   \<and> ConfigPatch_check example_store (example_patch [change_subnet, change_sg]) ''stack'' =
       Inr (False,
            [header_row,
             [PStr ''vpc default'', PStr ''master_subnet_id'', PStr ''subnet-12345678'',
              PStr ''subnet-1234567a'', PStr ''FAILED'', PStr ''Update currently unsupported''],
             [PStr ''vpc default'', PStr ''additional_sg'', PStr ''sg-12345678'',
              PStr ''sg-1234567a'', PStr ''SUCCEEDED'', PStr ''-'']],
            {''Restore the previous parameter value for the unsupported changes.''})"
proof -
  let ?p = "example_patch [change_subnet, change_sg]"
  note inst = UpdatePolicy_check_result[of DENIED "''stack''" ?p example_store change_subnet]
  have none: "condition_checker DENIED = None"
    by (simp add: policy_defs Let_def)
  with inst have 1: "UpdatePolicy_check DENIED ''stack'' = Inr FAILED" by blast
  have rep: "filter reported (changes ?p) = [change_subnet, change_sg]"
    by (simp add: reported_def policy_defs example_defs Let_def)
  have "\<forall>c \<in> set (changes ?p). reported c \<longrightarrow>
          condition_checker (update_policy c) = None
          \<or> (\<exists>f b. condition_checker (update_policy c) = Some f \<and> f ''stack'' = Inr b)"
    by (auto simp: policy_defs example_defs Let_def)
  with inst obtain allowed acts where r: "ConfigPatch_check example_store ?p ''stack'' =
      Inr (allowed, header_row # map (expected_row ''stack'') (filter reported (changes ?p)), acts)"
    by blast
  have "condition_checker (update_policy change_subnet) = None"
    using none by (simp add: change_subnet_def)
  with inst have row1: "expected_row ''stack'' change_subnet =
      report_row change_subnet FAILED (pyval_of_str (fail_reason (update_policy change_subnet)))"
    by blast
  have row2: "expected_row ''stack'' change_sg = [PStr ''vpc default'', PStr ''additional_sg'',
      PStr ''sg-12345678'', PStr ''sg-1234567a'', PStr ''SUCCEEDED'', PStr ''-'']"
    by (simp add: expected_row_def report_row_def section_descriptor_def policy_defs example_defs Let_def)
  have ev: "ConfigPatch_check example_store ?p ''stack'' =
      Inr (False, [header_row, report_row change_subnet FAILED (PStr ''Update currently unsupported''),
                   report_row change_sg SUCCEEDED (PStr ''-'')],
           {''Restore the previous parameter value for the unsupported changes.''})"
    by (simp add: ConfigPatch_check_def check_change_def policy_defs example_defs Let_def
          pyval_of_str_def substitute_placeholders_def str_replace.simps)
  from r ev rep row1 row2 1 show ?thesis
    by (simp add: report_row_def section_descriptor_def change_subnet_def)
qed

text \<open>
  Claim C4. The update policy level of a patch is the maximum of the levels of its
  changes, and the level of \<open>ALLOWED\<close>, which is 0, when there is no change; it does not
  depend on the order of the changes.
\<close>

theorem update_policy_level_max:
  "(changes p \<noteq> [] \<longrightarrow>
      update_policy_level p = Max (set (map (\<lambda>c. level (update_policy c)) (changes p))))
   \<and> (changes p = [] \<longrightarrow> update_policy_level p = level ALLOWED)
   \<and> level ALLOWED = 0
   \<and> (mset (changes p) = mset (changes q) \<longrightarrow> update_policy_level p = update_policy_level q)"
proof -
  have nonempty: "update_policy_level r = Max (set (map (\<lambda>c. level (update_policy c)) (changes r)))"
    if "changes r \<noteq> []" for r
    using that by (cases "changes r") (simp_all add: update_policy_level_def py_max_Max)
  have empty: "update_policy_level r = level ALLOWED" if "changes r = []" for r
    using that by (simp add: update_policy_level_def)
  have perm: "update_policy_level p = update_policy_level q" if m: "mset (changes p) = mset (changes q)"
  proof (cases "changes p = []")
    case True
    with m have "changes q = []" by simp
    with True empty show ?thesis by simp
  next
    case False
    with m have q: "changes q \<noteq> []" by auto
    from m have "set (changes p) = set (changes q)" by (rule mset_eq_setD)
    then have "set (map (\<lambda>c. level (update_policy c)) (changes p))
             = set (map (\<lambda>c. level (update_policy c)) (changes q))" by simp
    with nonempty[OF False] nonempty[OF q] show ?thesis by simp
  qed
  have "level ALLOWED = 0" by (simp add: ALLOWED_def UpdatePolicy_init_def Let_def)
  with nonempty empty perm show ?thesis by blast
qed

text \<open>Changes at the levels 10, 1000 and 20, in two orders, and the empty patch.\<close>

theorem update_policy_level_max_witness:
  "update_policy_level (example_patch [change_queue_size busy_fleet, change_subnet, change_master]) = 1000
   \<and> update_policy_level (example_patch [change_subnet, change_master, change_queue_size busy_fleet]) = 1000
   \<and> update_policy_level (example_patch []) = 0"
proof -
  let ?p = "example_patch [change_queue_size busy_fleet, change_subnet, change_master]"
  let ?q = "example_patch [change_subnet, change_master, change_queue_size busy_fleet]"
  have lv: "level (update_policy (change_queue_size busy_fleet)) = 10"
    "level (update_policy change_subnet) = 1000" "level (update_policy change_master) = 20"
    by (simp_all add: policy_defs example_defs change_master_def Let_def)
  have ne: "changes ?p \<noteq> []" by (simp add: example_patch_def)
  have m: "mset (changes ?p) = mset (changes ?q)" by (simp add: example_patch_def)
  from update_policy_level_max[of ?p ?q] ne
  have "update_policy_level ?p = Max (set (map (\<lambda>c. level (update_policy c)) (changes ?p)))"
    by blast
  with lv have 1: "update_policy_level ?p = 1000" by (simp add: example_patch_def)
  from update_policy_level_max[of ?p ?q] m have 2: "update_policy_level ?p = update_policy_level ?q"
    by blast
  have "changes (example_patch []) = []" by (simp add: example_patch_def)
  with update_policy_level_max[of "example_patch []" ?q]
  have 3: "update_policy_level (example_patch []) = 0" by simp
  from 1 2 3 show ?thesis by simp
qed

text \<open>
  Claim C7, as amended. An exception of a condition checker is not confined to its change:
  \<open>check\<close> raises if and only if the checker of some reported change raises, and it
  raises the exception of the first such change, whatever changes follow it.
\<close>

theorem check_propagates_checker_exception:
  "((\<exists>e. ConfigPatch_check st p s = Inl e) \<longleftrightarrow>
      (\<exists>c \<in> set (changes p). reported c \<and> (\<exists>e. UpdatePolicy_check (update_policy c) s = Inl e)))
   \<and> (changes p = cs1 @ c # cs2
       \<and> (\<forall>c' \<in> set cs1. reported c' \<longrightarrow> (\<exists>r. UpdatePolicy_check (update_policy c') s = Inr r))
       \<and> reported c \<and> UpdatePolicy_check (update_policy c) s = Inl e
       \<longrightarrow> ConfigPatch_check st p s = Inl e)"
proof (intro conjI impI)
  show "(\<exists>e. ConfigPatch_check st p s = Inl e) \<longleftrightarrow>
      (\<exists>c \<in> set (changes p). reported c \<and> (\<exists>e. UpdatePolicy_check (update_policy c) s = Inl e))"
    unfolding ConfigPatch_check_def by (rule check_loop_Inl)
next
  assume a: "changes p = cs1 @ c # cs2
       \<and> (\<forall>c' \<in> set cs1. reported c' \<longrightarrow> (\<exists>r. UpdatePolicy_check (update_policy c') s = Inr r))
       \<and> reported c \<and> UpdatePolicy_check (update_policy c) s = Inl e"
  then show "ConfigPatch_check st p s = Inl e"
    unfolding ConfigPatch_check_def by (simp add: check_loop_first_exception)
qed

text \<open>The second of three changes has a failing live query: no report is returned.\<close>

theorem check_propagates_checker_exception_witness:
  "ConfigPatch_check example_store
     (example_patch [change_sg, change_queue_size unreachable_fleet, change_subnet]) ''stack''
   = Inl (Exception ''Unable to locate credentials'')"
proof -
  let ?p = "example_patch [change_sg, change_queue_size unreachable_fleet, change_subnet]"
  have 1: "changes ?p = [change_sg] @ change_queue_size unreachable_fleet # [change_subnet]"
    by (simp add: example_patch_def)
  have 2: "\<forall>c' \<in> set [change_sg]. reported c' \<longrightarrow> (\<exists>r. UpdatePolicy_check (update_policy c') ''stack'' = Inr r)"
    by (simp add: policy_defs example_defs Let_def)
  have 3: "reported (change_queue_size unreachable_fleet)"
    by (simp add: reported_def policy_defs example_defs Let_def)
  have 4: "UpdatePolicy_check (update_policy (change_queue_size unreachable_fleet)) ''stack''
            = Inl (Exception ''Unable to locate credentials'')"
    by (simp add: policy_defs example_defs Let_def)
  from check_propagates_checker_exception[of example_store ?p "''stack''" "[change_sg]"
         "change_queue_size unreachable_fleet" "[change_subnet]" "Exception ''Unable to locate credentials''"]
       1 2 3 4
  show ?thesis by blast
qed

text \<open>
  Claim C7 as stated fails: the live query of the first change raises, and \<open>check\<close>
  raises instead of returning a verdict and the row of the second change.
\<close>

theorem check_isolates_checker_exception_counterexample:
  "ConfigPatch_check example_store
     (example_patch [change_queue_size unreachable_fleet, change_sg]) ''stack''
   = Inl (Exception ''Unable to locate credentials'')"
  by (simp add: ConfigPatch_check_def check_change_def policy_defs example_defs Let_def
        stop_cluster_action_def)

text \<open>
  Claim C8. The placeholder \<open>$CONFIG_FILE\<close> is replaced by the path of the target
  configuration file, but \<open>$CLUSTER_NAME\<close> is replaced by the path of the base
  configuration file, not by the name of the cluster: for the cluster \<open>mycluster\<close>,
  updated from \<open>/home/user/.parallelcluster/config\<close>, the remediation text ends with
  the path twice.
\<close>

theorem check_cluster_name_placeholder:
  "ConfigPatch_check example_store (example_patch [change_queue_size busy_fleet]) ''parallelcluster-mycluster''
   = Inr (False,
          [header_row,
           [PStr ''cluster default'', PStr ''initial_queue_size'', PInt 0, PInt 1,
            PStr ''ACTION NEEDED'', PStr ''Compute fleet must be empty'']],
          {''Stop the cluster with the following command: \<newline>pcluster stop -c /home/user/.parallelcluster/config /home/user/.parallelcluster/config''})"
  by (simp add: ConfigPatch_check_def check_change_def policy_defs example_defs Let_def
        report_row_def section_descriptor_def pyval_of_str_def substitute_placeholders_def
        stop_cluster_action_def str_replace.simps)

section \<open>The sections of a configuration under its operations\<close>

lemma length_sections_refresh [simp]: "length (sections (refresh c)) = length (sections c)"
  by (simp add: refresh_def)

lemma map_section_id_refresh [simp]: "map section_id (sections (refresh c)) = map section_id (sections c)"
  by (simp add: refresh_def section_id_def)

lemma map_key_refresh [simp]: "map key (sections (refresh c)) = map key (sections c)"
  by (simp add: refresh_def)

lemma map_attached_refresh [simp]: "map attached (sections (refresh c)) = map attached (sections c)"
  by (simp add: refresh_def)

lemma live_sections_refresh:
  "live_sections (refresh c) =
     map (\<lambda>s. s\<lparr>params := map (refresh_param (live_sections c)) (params s)\<rparr>) (live_sections c)"
  by (induction "sections c" arbitrary: c)
     (auto simp: live_sections_def refresh_def filter_map o_def intro!: filter_cong map_cong)

lemma skeleton_refresh [simp]: "skeleton (refresh c) = skeleton c"
  by (simp add: skeleton_def live_sections_refresh o_def)

lemma section_ids_skeleton: "section_ids c = (\<lambda>(k, l, m). (k, l)) ` set (skeleton c)"
  by (force simp: section_ids_def skeleton_def section_id_def)

lemma mock_ids_skeleton: "mock_ids c = {(k, l). (k, l, True) \<in> set (skeleton c)}"
  by (force simp: mock_ids_def skeleton_def section_id_def)

lemma unique_ids_skeleton: "unique_ids c = distinct (map (\<lambda>(k, l, m). (k, l)) (skeleton c))"
  by (simp add: unique_ids_def skeleton_def o_def section_id_def[abs_def])

lemma section_ids_refresh [simp]: "section_ids (refresh c) = section_ids c"
  by (simp add: section_ids_skeleton)

lemma mock_ids_refresh [simp]: "mock_ids (refresh c) = mock_ids c"
  by (simp add: mock_ids_skeleton)

lemma unique_ids_refresh [simp]: "unique_ids (refresh c) = unique_ids c"
  by (simp add: unique_ids_skeleton)

lemma section_ids_id_at:
  "section_ids c = {id_at c n | n. n < length (sections c) \<and> attached (sections c ! n)}"
proof (intro set_eqI iffI)
  fix x assume "x \<in> section_ids c"
  then obtain s where "s \<in> set (sections c)" "attached s" "x = section_id s"
    by (auto simp: section_ids_def live_sections_def)
  then obtain n where "n < length (sections c)" "sections c ! n = s"
    by (auto simp: in_set_conv_nth)
  with \<open>x = section_id s\<close> \<open>attached s\<close>
  show "x \<in> {id_at c n | n. n < length (sections c) \<and> attached (sections c ! n)}"
    by (auto simp: id_at_def)
next
  fix x assume "x \<in> {id_at c n | n. n < length (sections c) \<and> attached (sections c ! n)}"
  then obtain n where "n < length (sections c)" "attached (sections c ! n)" "x = id_at c n" by auto
  then show "x \<in> section_ids c"
    by (auto simp: section_ids_def id_at_def live_sections_def)
qed

lemma nth_refresh:
  assumes "m < length (sections c)"
  shows "key (sections (refresh c) ! m) = key (sections c ! m)"
    and "label (sections (refresh c) ! m) = label (sections c ! m)"
    and "attached (sections (refresh c) ! m) = attached (sections c ! m)"
    and "mock (sections (refresh c) ! m) = mock (sections c ! m)"
  using assms by (simp_all add: refresh_def)

lemma length_sections_set_label [simp]:
  "length (sections (set_label c n l)) = length (sections c)"
  by (simp add: set_label_def Let_def)

lemma nth_set_label:
  assumes "m < length (sections c)"
  shows "key (sections (set_label c n l) ! m) = key (sections c ! m)"
    and "label (sections (set_label c n l) ! m) = (if m = n then l else label (sections c ! m))"
    and "attached (sections (set_label c n l) ! m) =
           (attached (sections c ! m) \<and>
            (m = n \<or> \<not> (attached (sections c ! n) \<and> key (sections c ! m) = key (sections c ! n)
                           \<and> label (sections c ! m) = l)))"
proof -
  let ?xs = "map (\<lambda>x. if attached x \<and> key x = key (sections c ! n) \<and> label x = l
                          then x\<lparr>attached := False\<rparr> else x) (sections c)"
  have upd: "xs[n := y] ! m = (if m = n then y else xs ! m)" if "m < length xs" for xs :: "Section list" and y
    using that by (cases "m = n") simp_all
  show "key (sections (set_label c n l) ! m) = key (sections c ! m)"
    using assms by (simp add: set_label_def Let_def nth_refresh upd)
  show "label (sections (set_label c n l) ! m) = (if m = n then l else label (sections c ! m))"
    using assms by (simp add: set_label_def Let_def nth_refresh upd)
  show "attached (sections (set_label c n l) ! m) =
           (attached (sections c ! m) \<and>
            (m = n \<or> \<not> (attached (sections c ! n) \<and> key (sections c ! m) = key (sections c ! n)
                           \<and> label (sections c ! m) = l)))"
    using assms by (auto simp: set_label_def Let_def nth_refresh upd)
qed

lemma map_key_set_label [simp]: "map key (sections (set_label c n l)) = map key (sections c)"
  by (rule nth_equalityI) (simp_all add: nth_set_label)

lemma id_at_set_label:
  "m < length (sections c) \<Longrightarrow>
   id_at (set_label c n l) m = (if m = n then (key (sections c ! n), l) else id_at c m)"
  by (simp add: id_at_def section_id_def nth_set_label)

lemma key_nth_eq:
  "map key (sections b') = map key (sections b) \<Longrightarrow> n < length (sections b) \<Longrightarrow>
   key (sections b' ! n) = key (sections b ! n)"
  by (metis length_map nth_map)

lemma set_get_section_keys [simp]: "set (get_section_keys c) = key ` set (live_sections c)"
  by (simp add: get_section_keys_def)

lemma set_section_indices [simp]:
  "set (section_indices c k) =
     {n. n < length (sections c) \<and> attached (sections c ! n) \<and> key (sections c ! n) = k}"
  by (auto simp: section_indices_def)

lemma find_SomeD: "find P xs = Some x \<Longrightarrow> x \<in> set xs \<and> P x"
  by (induction xs) (auto split: if_splits)

lemma section_ids_add_section [simp]:
  "attached s \<Longrightarrow> section_ids (add_section c s) = insert (section_id s) (section_ids c)"
  unfolding add_section_def section_ids_refresh
  by (auto simp: section_ids_def section_id_def live_sections_def split: if_splits)

lemma create_default_section_props:
  "create_default_section c s = (c', m) \<Longrightarrow>
     section_id m = section_id s \<and> attached m \<and> section_ids c' = insert (section_id s) (section_ids c)"
  by (auto simp: create_default_section_def Let_def Section_init_def section_id_def)

lemma get_target_section_props:
  assumes "get_target_section t bs = (t', ts)"
  shows "key ts = key bs" and "section_id ts \<in> section_ids t'" and "section_ids t \<subseteq> section_ids t'"
proof -
  let ?found = "(if truthy_str (key_param bs)
             then get_target_section_by_param t (key bs) (the (key_param bs))
                    (get_param_value bs (the (key_param bs)))
             else (let secs = get_sections t (key bs)
                   in if length secs = 1 then Some (hd secs) else None))"
  have found: "s \<in> set (live_sections t) \<and> key s = key bs" if "?found = Some s" for s
  proof -
    from that have "s \<in> set (get_sections t (key bs))"
      by (auto simp: get_target_section_by_param_def Let_def length_Suc_conv
               split: if_splits dest: find_SomeD)
    then show ?thesis by (simp add: get_sections_def)
  qed
  show "key ts = key bs" and "section_id ts \<in> section_ids t'" and "section_ids t \<subseteq> section_ids t'"
  proof (atomize (full), cases ?found)
    case None
    with assms have "create_default_section t bs = (t', ts)"
      by (simp add: get_target_section_def Let_def)
    from create_default_section_props[OF this]
    show "key ts = key bs \<and> section_id ts \<in> section_ids t' \<and> section_ids t \<subseteq> section_ids t'"
      by (auto simp: section_id_def)
  next
    case (Some s)
    with assms have "t' = t" "ts = s"
      by (simp_all add: get_target_section_def Let_def)
    with found[OF Some]
    show "key ts = key bs \<and> section_id ts \<in> section_ids t' \<and> section_ids t \<subseteq> section_ids t'"
      by (auto simp: section_ids_def)
  qed
qed

lemma match_loop_props:
  "match_loop ns (b, t) = (b', t') \<Longrightarrow>
     map key (sections b') = map key (sections b) \<and> section_ids t \<subseteq> section_ids t' \<and>
     (\<forall>m < length (sections b).
        (attached (sections b' ! m) \<longrightarrow> attached (sections b ! m)) \<and>
        (if m \<in> set ns then id_at b' m \<in> section_ids t' else id_at b' m = id_at b m))"
proof (induction ns arbitrary: b t)
  case Nil
  then show ?case by simp
next
  case (Cons n ns)
  obtain t1 ts where g: "get_target_section t (sections b ! n) = (t1, ts)"
    by (cases "get_target_section t (sections b ! n)")
  let ?b1 = "set_label b n (label ts)"
  from Cons.prems g have rest: "match_loop ns (?b1, t1) = (b', t')" by simp
  note ih = Cons.IH[OF rest]
  note tg = get_target_section_props[OF g]
  have len: "length (sections ?b1) = length (sections b)" by simp
  from ih have sub: "section_ids t1 \<subseteq> section_ids t'" by simp
  show ?case
  proof (intro conjI allI impI)
    show "map key (sections b') = map key (sections b)" using ih by simp
    show "section_ids t \<subseteq> section_ids t'" using ih tg(3) by blast
  next
    fix m assume m: "m < length (sections b)" and a: "attached (sections b' ! m)"
    with ih len have "attached (sections ?b1 ! m)" by simp
    with m show "attached (sections b ! m)" by (simp add: nth_set_label)
  next
    fix m assume m: "m < length (sections b)"
    with ih len have ihm: "if m \<in> set ns then id_at b' m \<in> section_ids t' else id_at b' m = id_at ?b1 m"
      by simp
    show "if m \<in> set (n # ns) then id_at b' m \<in> section_ids t' else id_at b' m = id_at b m"
    proof (cases "m \<in> set ns")
      case True
      with ihm show ?thesis by simp
    next
      case False
      with ihm have eq: "id_at b' m = id_at ?b1 m" by simp
      show ?thesis
      proof (cases "m = n")
        case True
        with eq m have "id_at b' m = (key (sections b ! n), label ts)"
          by (simp add: id_at_set_label)
        also have "\<dots> = section_id ts" using tg(1) by (simp add: section_id_def)
        finally have "id_at b' m \<in> section_ids t'" using tg(2) sub by auto
        with True show ?thesis by simp
      next
        case neq: False
        with eq m have "id_at b' m = id_at b m" by (simp add: id_at_set_label)
        with neq False show ?thesis by simp
      qed
    qed
  qed
qed

lemma match_keys_props:
  "fold (\<lambda>skey (b, t). match_loop (section_indices b skey) (b, t)) ks (b, t) = (b', t') \<Longrightarrow>
     map key (sections b') = map key (sections b) \<and> section_ids t \<subseteq> section_ids t' \<and>
     (\<forall>m < length (sections b).
        (attached (sections b' ! m) \<longrightarrow> attached (sections b ! m)) \<and>
        (attached (sections b' ! m) \<and> key (sections b ! m) \<in> set ks \<longrightarrow> id_at b' m \<in> section_ids t') \<and>
        (key (sections b ! m) \<notin> set ks \<longrightarrow> id_at b' m = id_at b m))"
proof (induction ks arbitrary: b t)
  case Nil
  then show ?case by simp
next
  case (Cons k ks)
  obtain b1 t1 where step: "match_loop (section_indices b k) (b, t) = (b1, t1)"
    by (cases "match_loop (section_indices b k) (b, t)")
  with Cons.prems have rest:
    "fold (\<lambda>skey (b, t). match_loop (section_indices b skey) (b, t)) ks (b1, t1) = (b', t')"
    by simp
  note ih = Cons.IH[OF rest]
  note st = match_loop_props[OF step]
  from st have keys1: "map key (sections b1) = map key (sections b)" by simp
  then have len1: "length (sections b1) = length (sections b)" by (metis length_map)
  from ih have sub: "section_ids t1 \<subseteq> section_ids t'" by simp
  show ?case
  proof (intro conjI allI impI)
    show "map key (sections b') = map key (sections b)" using ih keys1 by simp
    show "section_ids t \<subseteq> section_ids t'" using ih st by blast
  next
    fix m assume m: "m < length (sections b)" and a: "attached (sections b' ! m)"
    with ih len1 have "attached (sections b1 ! m)" by simp
    with st m show "attached (sections b ! m)" by simp
  next
    fix m assume m: "m < length (sections b)"
      and a: "attached (sections b' ! m) \<and> key (sections b ! m) \<in> set (k # ks)"
    from m have k1: "key (sections b1 ! m) = key (sections b ! m)"
      using keys1 by (rule key_nth_eq[rotated])
    from a ih m len1 have a1: "attached (sections b1 ! m)" by simp
    with st m have a0: "attached (sections b ! m)" by simp
    show "id_at b' m \<in> section_ids t'"
    proof (cases "key (sections b ! m) \<in> set ks")
      case True
      with ih m len1 a k1 show ?thesis by simp
    next
      case False
      with a have "key (sections b ! m) = k" by simp
      with a0 m have "m \<in> set (section_indices b k)" by simp
      with st m have "id_at b1 m \<in> section_ids t1" by simp
      moreover from False ih m len1 k1 have "id_at b' m = id_at b1 m" by simp
      ultimately show ?thesis using sub by auto
    qed
  next
    fix m assume m: "m < length (sections b)" and nk: "key (sections b ! m) \<notin> set (k # ks)"
    from m have k1: "key (sections b1 ! m) = key (sections b ! m)"
      using keys1 by (rule key_nth_eq[rotated])
    from nk m have "m \<notin> set (section_indices b k)" by simp
    with st m have "id_at b1 m = id_at b m" by simp
    moreover from nk ih m len1 k1 have "id_at b' m = id_at b1 m" by simp
    ultimately show "id_at b' m = id_at b m" by simp
  qed
qed

lemma match_base_sections_props:
  assumes "match_base_sections (b, t) = (b', t')"
  shows "section_ids b' \<subseteq> section_ids t'"
proof -
  from assms have f: "fold (\<lambda>skey (b, t). match_loop (section_indices b skey) (b, t))
      (get_section_keys b) (b, t) = (b', t')"
    by (simp add: match_base_sections_def)
  note p = match_keys_props[OF f]
  then have len: "length (sections b') = length (sections b)" by (metis length_map)
  show ?thesis
  proof
    fix x assume "x \<in> section_ids b'"
    then obtain m where m: "m < length (sections b')" "attached (sections b' ! m)" "x = id_at b' m"
      by (auto simp: section_ids_id_at)
    with p len have "attached (sections b ! m)" by simp
    with m len have "key (sections b ! m) \<in> set (get_section_keys b)"
      by (auto simp: live_sections_def)
    with p m len show "x \<in> section_ids t'" by simp
  qed
qed

lemma get_base_section_ids:
  "section_ids (fst (get_base_section b ts)) = insert (section_id ts) (section_ids b)"
proof (cases "get_section b (key ts) (Some (label ts))")
  case None
  then have "section_id ts \<notin> section_ids b"
    by (auto simp: get_section_def get_sections_def find_None_iff section_ids_def section_id_def)
  obtain c m where c: "create_default_section b ts = (c, m)"
    by (cases "create_default_section b ts")
  with None create_default_section_props[OF c] show ?thesis
    by (simp add: get_base_section_def)
next
  case (Some s)
  then have "s \<in> set (live_sections b) \<and> key s = key ts \<and> label s = label ts"
    by (auto simp: get_section_def get_sections_def dest: find_SomeD)
  then have "s \<in> set (live_sections b)" "section_id ts = section_id s"
    by (simp_all add: section_id_def)
  then have "section_id ts \<in> section_ids b"
    by (simp add: section_ids_def)
  with Some show ?thesis by (auto simp: get_base_section_def)
qed

lemma fold_get_base_section_ids:
  "section_ids (fold (\<lambda>target_section b'. fst (get_base_section b' target_section)) ss b)
     = section_ids b \<union> section_id ` set ss"
  by (induction ss arbitrary: b) (auto simp: get_base_section_ids)

lemma create_missing_keys_ids:
  "section_ids (fold (\<lambda>skey b. fold (\<lambda>target_section b'. fst (get_base_section b' target_section))
               (get_sections t skey) b) ks b)
     = section_ids b \<union> section_id ` {s \<in> set (live_sections t). key s \<in> set ks}"
  by (induction ks arbitrary: b) (auto simp: fold_get_base_section_ids get_sections_def)

lemma create_missing_base_sections_ids:
  "section_ids (create_missing_base_sections b t) = section_ids b \<union> section_ids t"
  unfolding create_missing_base_sections_def create_missing_keys_ids
  by (auto simp: section_ids_def)

lemma adapt_section_ids:
  assumes "adapt bt = Inr (b', t')"
  shows "section_ids b' = section_ids t'"
proof -
  from assms obtain base1 target1 where
    r: "remove_ignored_sections (fst bt) = Inr base1" "remove_ignored_sections (snd bt) = Inr target1"
    by (auto simp: adapt_def split: sum.splits)
  obtain base3 target3 where
    m: "match_base_sections (rename_base_sections base1, target1) = (base3, target3)"
    by (cases "match_base_sections (rename_base_sections base1, target1)")
  from r m have "adapt bt = Inr (create_missing_base_sections base3 target3, target3)"
    by (simp add: adapt_def Let_def)
  with assms have "b' = create_missing_base_sections base3 target3" "t' = target3"
    by auto
  with match_base_sections_props[OF m] show ?thesis
    by (auto simp: create_missing_base_sections_ids)
qed

section \<open>No two sections of a configuration have the same key and label\<close>

lemma distinct_map_filter_nth:
  "distinct (map f (filter P xs)) \<longleftrightarrow>
     (\<forall>i < length xs. \<forall>j < length xs. i \<noteq> j \<and> P (xs ! i) \<and> P (xs ! j) \<longrightarrow> f (xs ! i) \<noteq> f (xs ! j))"
proof (induction xs)
  case Nil
  then show ?case by simp
next
  case (Cons x xs)
  have split: "(\<forall>i < length (x # xs). Q i) \<longleftrightarrow> Q 0 \<and> (\<forall>i < length xs. Q (Suc i))" for Q
    by (auto simp: less_Suc_eq_0_disj)
  have mem: "f x \<in> f ` {y \<in> set xs. P y} \<longleftrightarrow> (\<exists>j < length xs. P (xs ! j) \<and> f (xs ! j) = f x)"
  proof
    assume "f x \<in> f ` {y \<in> set xs. P y}"
    then obtain y where "y \<in> set xs" "P y" "f y = f x" by auto
    then show "\<exists>j < length xs. P (xs ! j) \<and> f (xs ! j) = f x"
      by (auto simp: in_set_conv_nth)
  next
    assume "\<exists>j < length xs. P (xs ! j) \<and> f (xs ! j) = f x"
    then obtain j where "j < length xs" "P (xs ! j)" "f (xs ! j) = f x" by auto
    then have "xs ! j \<in> {y \<in> set xs. P y}" by simp
    with \<open>f (xs ! j) = f x\<close> show "f x \<in> f ` {y \<in> set xs. P y}"
      by (metis imageI)
  qed
  show ?case
    unfolding split using Cons.IH mem by (auto simp: split)
qed

lemma unique_ids_nth:
  "unique_ids c \<longleftrightarrow>
     (\<forall>i < length (sections c). \<forall>j < length (sections c).
        i \<noteq> j \<and> attached (sections c ! i) \<and> attached (sections c ! j) \<longrightarrow> id_at c i \<noteq> id_at c j)"
  unfolding unique_ids_def live_sections_def id_at_def by (rule distinct_map_filter_nth)

lemma unique_ids_set_label:
  assumes "unique_ids c"
  shows "unique_ids (set_label c n l)"
  unfolding unique_ids_nth
proof (intro allI impI, elim conjE)
  fix i j
  assume i: "i < length (sections (set_label c n l))" and j: "j < length (sections (set_label c n l))"
    and ne: "i \<noteq> j"
    and ai: "attached (sections (set_label c n l) ! i)"
    and aj: "attached (sections (set_label c n l) ! j)"
  from i j have i': "i < length (sections c)" and j': "j < length (sections c)" by simp_all
  from ai aj i' j' have old: "attached (sections c ! i)" "attached (sections c ! j)"
    by (simp_all add: nth_set_label)
  with assms i' j' ne have diff: "id_at c i \<noteq> id_at c j"
    by (simp add: unique_ids_nth)
  have one: "id_at (set_label c n l) b \<noteq> id_at (set_label c n l) n"
    if b: "b < length (sections c)" "b \<noteq> n" "attached (sections (set_label c n l) ! b)"
      and n: "n < length (sections c)" "attached (sections c ! n)" for b
  proof -
    from b n have "\<not> (key (sections c ! b) = key (sections c ! n) \<and> label (sections c ! b) = l)"
      by (simp add: nth_set_label)
    with b n show ?thesis
      by (auto simp: id_at_def section_id_def nth_set_label)
  qed
  show "id_at (set_label c n l) i \<noteq> id_at (set_label c n l) j"
  proof (cases "i = n \<or> j = n")
    case False
    with i' j' diff show ?thesis by (simp add: id_at_set_label)
  next
    case True
    with ne one[of j] one[of i] i' j' ai aj old show ?thesis by (metis)
  qed
qed

lemma unique_ids_add_section:
  assumes "unique_ids c" "attached s"
  shows "unique_ids (add_section c s)"
proof (cases "\<exists>x \<in> set (live_sections c). key x = key s \<and> label x = label s")
  case True
  let ?f = "\<lambda>x. if attached x \<and> key x = key s \<and> label x = label s then s else x"
  have "map section_id (filter attached (map ?f xs)) = map section_id (filter attached xs)" for xs
    using assms(2) by (induction xs) (auto simp: section_id_def)
  with True assms(1) show ?thesis
    unfolding add_section_def unique_ids_refresh
    by (simp add: unique_ids_def live_sections_def)
next
  case False
  then have "section_id s \<notin> section_id ` set (live_sections c)"
    by (auto simp: section_id_def)
  with False assms show ?thesis
    unfolding add_section_def unique_ids_refresh
    by (auto simp: unique_ids_def live_sections_def)
qed

lemma unique_ids_remove_section:
  assumes "remove_section c k l = Inr c'" "unique_ids c"
  shows "unique_ids c'"
proof -
  have "unique_ids (c\<lparr>sections := filter P (sections c)\<rparr>)" for P
  proof -
    have "live_sections (c\<lparr>sections := filter P (sections c)\<rparr>) = filter P (live_sections c)"
      by (simp add: live_sections_def conj_commute)
    with assms(2) show ?thesis
      unfolding unique_ids_def by (simp add: distinct_map_filter)
  qed
  with assms show ?thesis
    by (auto simp: remove_section_def split: option.splits if_splits)
qed

lemma unique_ids_remove_sections_by_key:
  "remove_sections_by_key ks c = Inr c' \<Longrightarrow> unique_ids c \<Longrightarrow> unique_ids c'"
  by (induction ks arbitrary: c) (auto split: sum.splits dest: unique_ids_remove_section)

lemma unique_ids_rename_loop: "unique_ids b \<Longrightarrow> unique_ids (rename_loop skey ns i b)"
  by (induction ns arbitrary: i b) (simp_all add: unique_ids_set_label)

lemma unique_ids_rename_base_sections: "unique_ids b \<Longrightarrow> unique_ids (rename_base_sections b)"
proof -
  have "unique_ids b \<Longrightarrow> unique_ids (fold (\<lambda>skey b.
             rename_loop skey
               (sort_key (\<lambda>n. label (sections b ! n)) (section_indices b skey)) 0 b) ks b)" for ks
    by (induction ks arbitrary: b) (simp_all add: unique_ids_rename_loop)
  then show "unique_ids b \<Longrightarrow> unique_ids (rename_base_sections b)"
    by (simp add: rename_base_sections_def)
qed

lemma unique_ids_create_default_section:
  "unique_ids c \<Longrightarrow> unique_ids (fst (create_default_section c s))"
  by (simp add: create_default_section_def Let_def Section_init_def unique_ids_add_section)

lemma unique_ids_get_target_section:
  "unique_ids t \<Longrightarrow> unique_ids (fst (get_target_section t bs))"
  by (auto simp: get_target_section_def Let_def unique_ids_create_default_section
           split: option.splits)

lemma unique_ids_get_base_section:
  "unique_ids b \<Longrightarrow> unique_ids (fst (get_base_section b ts))"
  by (auto simp: get_base_section_def unique_ids_create_default_section split: option.splits)

lemma unique_ids_match_loop:
  "match_loop ns (b, t) = (b', t') \<Longrightarrow> unique_ids b \<Longrightarrow> unique_ids t \<Longrightarrow>
     unique_ids b' \<and> unique_ids t'"
proof (induction ns arbitrary: b t)
  case Nil
  then show ?case by simp
next
  case (Cons n ns)
  obtain t1 ts where g: "get_target_section t (sections b ! n) = (t1, ts)"
    by (cases "get_target_section t (sections b ! n)")
  with Cons.prems have rest: "match_loop ns (set_label b n (label ts), t1) = (b', t')" by simp
  from g unique_ids_get_target_section[OF Cons.prems(3), of "sections b ! n"]
  have "unique_ids t1" by simp
  with Cons.IH[OF rest] Cons.prems(2) show ?case
    by (simp add: unique_ids_set_label)
qed

lemma unique_ids_match_base_sections:
  assumes "match_base_sections (b, t) = (b', t')" "unique_ids b" "unique_ids t"
  shows "unique_ids b' \<and> unique_ids t'"
proof -
  have "fold (\<lambda>skey (b, t). match_loop (section_indices b skey) (b, t)) ks (b, t) = (b', t') \<Longrightarrow>
        unique_ids b \<Longrightarrow> unique_ids t \<Longrightarrow> unique_ids b' \<and> unique_ids t'" for ks b t
  proof (induction ks arbitrary: b t)
    case Nil
    then show ?case by simp
  next
    case (Cons k ks)
    obtain b1 t1 where step: "match_loop (section_indices b k) (b, t) = (b1, t1)"
      by (cases "match_loop (section_indices b k) (b, t)")
    with Cons.prems(1) have rest:
      "fold (\<lambda>skey (b, t). match_loop (section_indices b skey) (b, t)) ks (b1, t1) = (b', t')"
      by simp
    from unique_ids_match_loop[OF step Cons.prems(2,3)] Cons.IH[OF rest] show ?case by simp
  qed
  with assms show ?thesis by (simp add: match_base_sections_def)
qed

lemma unique_ids_create_missing_base_sections:
  "unique_ids b \<Longrightarrow> unique_ids (create_missing_base_sections b t)"
proof -
  have inner: "unique_ids b \<Longrightarrow>
      unique_ids (fold (\<lambda>target_section b'. fst (get_base_section b' target_section)) ss b)" for ss b
    by (induction ss arbitrary: b) (simp_all add: unique_ids_get_base_section)
  have "unique_ids b \<Longrightarrow> unique_ids (fold (\<lambda>skey b.
             fold (\<lambda>target_section b'. fst (get_base_section b' target_section))
               (get_sections t skey) b) ks b)" for ks
    by (induction ks arbitrary: b) (simp_all add: inner)
  then show "unique_ids b \<Longrightarrow> unique_ids (create_missing_base_sections b t)"
    by (simp add: create_missing_base_sections_def)
qed

lemma unique_ids_adapt:
  assumes "adapt (b, t) = Inr (b', t')" "unique_ids b" "unique_ids t"
  shows "unique_ids b' \<and> unique_ids t'"
proof -
  from assms(1) obtain base1 target1 where
    r: "remove_ignored_sections b = Inr base1" "remove_ignored_sections t = Inr target1"
    by (auto simp: adapt_def split: sum.splits)
  obtain base3 target3 where
    m: "match_base_sections (rename_base_sections base1, target1) = (base3, target3)"
    by (cases "match_base_sections (rename_base_sections base1, target1)")
  from r m assms(1) have res: "b' = create_missing_base_sections base3 target3" "t' = target3"
    by (auto simp: adapt_def Let_def)
  from r assms(2,3) have "unique_ids base1" "unique_ids target1"
    by (auto simp: remove_ignored_sections_def dest: unique_ids_remove_sections_by_key)
  then have "unique_ids (rename_base_sections base1)" "unique_ids target1"
    by (simp_all add: unique_ids_rename_base_sections)
  from unique_ids_match_base_sections[OF m this] res show ?thesis
    by (simp add: unique_ids_create_missing_base_sections)
qed

section \<open>When adaptation fails\<close>

lemma live_sections_filter:
  "live_sections (c\<lparr>sections := filter P (sections c)\<rparr>) = filter P (live_sections c)"
  by (simp add: live_sections_def conj_commute)

lemma map_key_live_sections_refresh [simp]:
  "map key (live_sections (refresh c)) = map key (live_sections c)"
  by (simp add: live_sections_refresh o_def)

lemma length_get_sections:
  "length (get_sections c k) = length (filter (\<lambda>x. x = k) (map key (live_sections c)))"
  by (simp add: get_sections_def filter_map o_def)

lemma remove_section_by_key_Inl:
  "(\<exists>e. remove_section c k None = Inl e) \<longleftrightarrow> 1 < length (get_sections c k)"
  by (auto simp: remove_section_def)

lemma remove_section_by_key_error:
  "remove_section c k None = Inl e \<Longrightarrow> e = Exception (''More than one section with key '' @ k)"
  by (auto simp: remove_section_def split: if_splits)

lemma remove_section_by_key_count:
  assumes "remove_section c k0 None = Inr c1"
  shows "length (get_sections c1 k) = (if k = k0 then 0 else length (get_sections c k))"
proof (cases "get_sections c k0 = []")
  case True
  with assms have "c1 = c" by (simp add: remove_section_def)
  with True show ?thesis by simp
next
  case False
  with assms have c1: "c1 = refresh (c\<lparr>sections := filter (\<lambda>s. key s \<noteq> k0) (sections c)\<rparr>)"
    by (simp add: remove_section_def split: if_splits)
  have "map key (live_sections c1) = filter (\<lambda>x. x \<noteq> k0) (map key (live_sections c))"
    unfolding c1 by (simp add: live_sections_filter filter_map o_def)
  then have "length (get_sections c1 k)
      = length (filter (\<lambda>x. x \<noteq> k0 \<and> x = k) (map key (live_sections c)))"
    by (simp add: length_get_sections conj_commute)
  also have "(\<lambda>x. x \<noteq> k0 \<and> x = k) = (\<lambda>x. if k = k0 then False else x = k)"
    by auto
  finally show ?thesis
    by (simp add: length_get_sections)
qed

lemma remove_sections_by_key_Inl:
  "(\<exists>e. remove_sections_by_key ks c = Inl e) \<longleftrightarrow> (\<exists>k \<in> set ks. 1 < length (get_sections c k))"
proof (induction ks arbitrary: c)
  case Nil
  then show ?case by simp
next
  case (Cons k0 ks)
  show ?case
  proof (cases "remove_section c k0 None")
    case (Inl e)
    then have "1 < length (get_sections c k0)"
      using remove_section_by_key_Inl[of c k0] by auto
    with Inl show ?thesis by auto
  next
    case (Inr c1)
    then have small: "\<not> 1 < length (get_sections c k0)"
      using remove_section_by_key_Inl[of c k0] by auto
    note cnt = remove_section_by_key_count[OF Inr]
    have "(\<exists>k \<in> set ks. 1 < length (get_sections c1 k)) \<longleftrightarrow>
          (\<exists>k \<in> set (k0 # ks). 1 < length (get_sections c k))"
      using small by (auto simp: cnt)
    with Inr Cons.IH[of c1] show ?thesis by simp
  qed
qed

lemma remove_sections_by_key_error:
  "remove_sections_by_key ks c = Inl e \<Longrightarrow>
     \<exists>k \<in> set ks. e = Exception (''More than one section with key '' @ k)"
  by (induction ks arbitrary: c) (auto split: sum.splits dest: remove_section_by_key_error)

lemma adapt_Inl:
  "(\<exists>e. adapt (base, target) = Inl e) \<longleftrightarrow>
   (\<exists>k \<in> set IGNORED_SECTIONS. 1 < length (get_sections base k) \<or> 1 < length (get_sections target k))"
proof -
  have b: "(\<exists>e. remove_ignored_sections base = Inl e) \<longleftrightarrow>
           (\<exists>k \<in> set IGNORED_SECTIONS. 1 < length (get_sections base k))"
    and t: "(\<exists>e. remove_ignored_sections target = Inl e) \<longleftrightarrow>
           (\<exists>k \<in> set IGNORED_SECTIONS. 1 < length (get_sections target k))"
    by (simp_all only: remove_ignored_sections_def remove_sections_by_key_Inl)
  have "(\<exists>e. adapt (base, target) = Inl e) \<longleftrightarrow>
        (\<exists>e. remove_ignored_sections base = Inl e) \<or> (\<exists>e. remove_ignored_sections target = Inl e)"
    by (auto simp: adapt_def Let_def split: sum.splits prod.splits)
  with b t show ?thesis by blast
qed

lemma adapt_error:
  assumes "adapt bt = Inl e"
  shows "\<exists>k \<in> set IGNORED_SECTIONS. e = Exception (''More than one section with key '' @ k)"
proof -
  from assms have "remove_ignored_sections (fst bt) = Inl e \<or> remove_ignored_sections (snd bt) = Inl e"
    by (auto simp: adapt_def Let_def split: sum.splits prod.splits)
  then show ?thesis
    unfolding remove_ignored_sections_def by (auto dest: remove_sections_by_key_error)
qed

section \<open>When comparison fails\<close>

lemma compare_params_error:
  "compare_params b t ps chs = Inl e \<Longrightarrow> e = AttributeError"
  by (induction ps arbitrary: chs)
     (auto simp: base_value_of_def Let_def split: sum.splits option.splits if_splits)

lemma compare_section_error:
  "compare_section b t chs = Inl e \<Longrightarrow> e = AttributeError"
  by (auto simp: compare_section_def split: option.splits dest: compare_params_error)

lemma compare_sections_loop_error:
  "compare_sections_loop base ts chs = Inl e \<Longrightarrow> e = AttributeError"
  by (induction ts arbitrary: chs) (auto split: sum.splits dest: compare_section_error)

lemma compare_keys_loop_error:
  "compare_keys_loop base target ks chs = Inl e \<Longrightarrow> e = AttributeError"
  by (induction ks arbitrary: chs) (auto split: sum.splits if_splits dest: compare_sections_loop_error)

section \<open>The store after the construction of a patch\<close>

lemma ConfigPatch_init_frame_aux:
  "r < length st \<Longrightarrow> fst (ConfigPatch_init st b t) ! r = st ! r"
  by (auto simp: ConfigPatch_init_def deepcopy_def Let_def nth_append split: sum.splits prod.splits)

lemma ConfigPatch_init_refs:
  "snd (ConfigPatch_init st b t) = Inr p \<Longrightarrow>
     base_config p = length st \<and> target_config p = Suc (length st)"
  by (auto simp: ConfigPatch_init_def deepcopy_def Let_def split: sum.splits prod.splits)

lemma ConfigPatch_init_length:
  "length (fst (ConfigPatch_init st b t)) = length st + 2"
  by (auto simp: ConfigPatch_init_def deepcopy_def Let_def split: sum.splits prod.splits)

section \<open>Removing the mock sections\<close>

lemma settings_fresh_refresh: "settings_fresh (refresh c)"
proof -
  let ?g = "\<lambda>s. s\<lparr>params := map (refresh_param (live_sections c)) (params s)\<rparr>"
  have live: "live_sections (refresh c) = map ?g (live_sections c)"
    by (rule live_sections_refresh)
  have same: "map label (filter (\<lambda>s. key s = rk \<and> \<not> mock s) (live_sections (refresh c)))
      = map label (filter (\<lambda>s. key s = rk \<and> \<not> mock s) (live_sections c))" for rk
    unfolding live by (simp add: filter_map o_def)
  have "p_value p' = PStr (str_join '','' (sort (map label
            (filter (\<lambda>s. key s = rk \<and> \<not> mock s) (live_sections (refresh c))))))"
    if "p' \<in> set (params s')" "s' \<in> set (live_sections (refresh c))" "referred_section_key p' = Some rk"
    for s' p' rk
  proof -
    from that(2) obtain s where s: "s \<in> set (live_sections c)" "s' = ?g s"
      unfolding live by auto
    with that(1) obtain p where p: "p \<in> set (params s)" "p' = refresh_param (live_sections c) p"
      by auto
    with that(3) have "referred_section_key p = Some rk"
      by (auto simp: refresh_param_def split: option.splits)
    with p have "p_value p' = settings_value (live_sections c) rk"
      by (simp add: refresh_param_def)
    then show ?thesis by (simp add: same settings_value_def)
  qed
  then show ?thesis
    by (auto simp: settings_fresh_def split: option.splits)
qed

lemma remove_section_label_props:
  assumes "remove_section c k (Some l) = Inr c'"
  shows "skeleton c' = filter (\<lambda>(k', l', m). (k', l') \<noteq> (k, l)) (skeleton c)"
    and "\<exists>x. c' = refresh x"
proof -
  from assms have c': "c' = refresh (c\<lparr>sections := filter (\<lambda>s. \<not> (key s = k \<and> label s = l)) (sections c)\<rparr>)"
    by (simp add: remove_section_def)
  show "skeleton c' = filter (\<lambda>(k', l', m). (k', l') \<noteq> (k, l)) (skeleton c)"
    unfolding c' skeleton_refresh
    by (simp add: skeleton_def live_sections_filter filter_map o_def)
  show "\<exists>x. c' = refresh x" using c' by blast
qed

lemma remove_section_label_total: "\<exists>c'. remove_section c k (Some l) = Inr c'"
  by (simp add: remove_section_def)

lemma remove_mock_loop_props:
  "\<exists>c'. remove_mock_loop ss c = Inr c'
     \<and> skeleton c' = filter (\<lambda>(k, l, m). (k, l) \<notin> section_id ` {s \<in> set ss. mock s}) (skeleton c)
     \<and> (if \<exists>s \<in> set ss. mock s then \<exists>x. c' = refresh x else c' = c)"
proof (induction ss arbitrary: c)
  case Nil
  then show ?case by simp
next
  case (Cons s ss)
  show ?case
  proof (cases "mock s")
    case False
    have "{x \<in> set (s # ss). mock x} = {x \<in> set ss. mock x}" using False by auto
    with False Cons.IH[of c] show ?thesis by simp
  next
    case True
    obtain c1 where c1: "remove_section c (key s) (Some (label s)) = Inr c1"
      using remove_section_label_total by blast
    note r = remove_section_label_props[OF c1]
    from Cons.IH[of c1] obtain c' where c': "remove_mock_loop ss c1 = Inr c'"
      "skeleton c' = filter (\<lambda>(k, l, m). (k, l) \<notin> section_id ` {s \<in> set ss. mock s}) (skeleton c1)"
      "if \<exists>s \<in> set ss. mock s then \<exists>x. c' = refresh x else c' = c1"
      by blast
    have set: "{x \<in> set (s # ss). mock x} = insert s {x \<in> set ss. mock x}" using True by auto
    have "skeleton c' = filter (\<lambda>(k, l, m). (k, l) \<notin> section_id ` {x \<in> set (s # ss). mock x}) (skeleton c)"
      unfolding c'(2) r(1) set
      by (auto simp: section_id_def intro!: filter_cong)
    moreover from c'(3) r(2) have "\<exists>x. c' = refresh x" by (auto split: if_splits)
    ultimately show ?thesis using True c1 c'(1) by auto
  qed
qed

lemma remove_mock_keys_props:
  "\<exists>c'. remove_mock_keys ks c = Inr c'
     \<and> skeleton c' = filter (\<lambda>(k, l, m). \<not> ((k, l) \<in> mock_ids c \<and> k \<in> set ks)) (skeleton c)
     \<and> (if \<exists>x \<in> mock_ids c. fst x \<in> set ks then \<exists>x. c' = refresh x else c' = c)"
proof (induction ks arbitrary: c)
  case Nil
  then show ?case by simp
next
  case (Cons k ks)
  let ?ss = "sort_key label (get_sections c k)"
  let ?M = "section_id ` {s \<in> set ?ss. mock s}"
  have M: "?M = {x \<in> mock_ids c. fst x = k}"
    by (auto simp: mock_ids_def get_sections_def section_id_def)
  from remove_mock_loop_props[of ?ss c] obtain c1 where c1: "remove_mock_loop ?ss c = Inr c1"
    "skeleton c1 = filter (\<lambda>(k, l, m). (k, l) \<notin> ?M) (skeleton c)"
    "if \<exists>s \<in> set ?ss. mock s then \<exists>x. c1 = refresh x else c1 = c"
    by blast
  have ex: "(\<exists>s \<in> set ?ss. mock s) \<longleftrightarrow> ?M \<noteq> {}" by auto
  have m1: "mock_ids c1 = mock_ids c - ?M"
    unfolding mock_ids_skeleton c1(2) by auto
  from Cons.IH[of c1] obtain c' where c': "remove_mock_keys ks c1 = Inr c'"
    "skeleton c' = filter (\<lambda>(k, l, m). \<not> ((k, l) \<in> mock_ids c1 \<and> k \<in> set ks)) (skeleton c1)"
    "if \<exists>x \<in> mock_ids c1. fst x \<in> set ks then \<exists>x. c' = refresh x else c' = c1"
    by blast
  have res: "remove_mock_keys (k # ks) c = Inr c'" using c1(1) c'(1) by simp
  have skel: "skeleton c' =
      filter (\<lambda>(k', l, m). \<not> ((k', l) \<in> mock_ids c \<and> k' \<in> set (k # ks))) (skeleton c)"
    unfolding c'(2) c1(2) m1 M by (auto intro!: filter_cong)
  have shape: "if \<exists>x \<in> mock_ids c. fst x \<in> set (k # ks) then \<exists>x. c' = refresh x else c' = c"
  proof (cases "?M = {}")
    case True
    with c1(3) ex have "c1 = c" by simp
    moreover from True M have "(\<exists>x \<in> mock_ids c. fst x \<in> set (k # ks)) \<longleftrightarrow>
        (\<exists>x \<in> mock_ids c. fst x \<in> set ks)" by auto
    ultimately show ?thesis using c'(3) by simp
  next
    case False
    with c1(3) ex have "\<exists>x. c1 = refresh x" by simp
    with c'(3) have "\<exists>x. c' = refresh x" by (auto split: if_splits)
    moreover from False M have "\<exists>x \<in> mock_ids c. fst x \<in> set (k # ks)" by auto
    ultimately show ?thesis by simp
  qed
  from res skel shape show ?case by blast
qed

lemma remove_mock_sections_props:
  "\<exists>c'. remove_mock_sections c = Inr c'
     \<and> skeleton c' = filter (\<lambda>(k, l, m). (k, l) \<notin> mock_ids c) (skeleton c)
     \<and> mock_ids c' = {}
     \<and> (if mock_ids c = {} then c' = c else settings_fresh c')"
proof -
  from remove_mock_keys_props[of "get_section_keys c" c] obtain c' where
    c': "remove_mock_keys (get_section_keys c) c = Inr c'"
    "skeleton c' = filter (\<lambda>(k, l, m). \<not> ((k, l) \<in> mock_ids c \<and> k \<in> set (get_section_keys c)))
                     (skeleton c)"
    "if \<exists>x \<in> mock_ids c. fst x \<in> set (get_section_keys c) then \<exists>x. c' = refresh x else c' = c"
    by blast
  have keys: "fst x \<in> set (get_section_keys c)" if "x \<in> mock_ids c" for x
    using that by (auto simp: mock_ids_def section_id_def)
  have skel: "skeleton c' = filter (\<lambda>(k, l, m). (k, l) \<notin> mock_ids c) (skeleton c)"
    unfolding c'(2) using keys by (auto intro!: filter_cong)
  have none: "mock_ids c' = {}"
    unfolding mock_ids_skeleton skel by (auto simp: mock_ids_skeleton)
  have "(\<exists>x \<in> mock_ids c. fst x \<in> set (get_section_keys c)) \<longleftrightarrow> mock_ids c \<noteq> {}"
    using keys by auto
  with c'(3) have "if mock_ids c = {} then c' = c else settings_fresh c'"
    by (auto simp: settings_fresh_refresh split: if_splits)
  with c'(1) skel none show ?thesis by (simp add: remove_mock_sections_def)
qed

section \<open>When the construction of a patch fails\<close>

lemma compare_error:
  "compare bt chs = Inl e \<Longrightarrow> e = AttributeError"
  using remove_mock_sections_props[of "fst bt"] remove_mock_sections_props[of "snd bt"]
  by (auto simp: compare_def split: sum.splits
           dest: compare_keys_loop_error compare_section_error)

lemma ConfigPatch_init_error:
  assumes "snd (ConfigPatch_init st b t) = Inl e"
  shows "e = AttributeError \<or>
         (\<exists>k \<in> set IGNORED_SECTIONS. e = Exception (''More than one section with key '' @ k))"
  using assms
  by (auto simp: ConfigPatch_init_def Let_def split: prod.splits sum.splits
           dest: adapt_error compare_error)

lemma ConfigPatch_init_adapt_error:
  assumes "base_ref < length st \<and> target_ref < length st
          \<and> adapt (st ! base_ref, st ! target_ref) = Inl e"
  shows "snd (ConfigPatch_init st base_ref target_ref) = Inl e"
  using assms by (simp add: ConfigPatch_init_def deepcopy_def Let_def nth_append)

section \<open>The comparison of two sections\<close>

lemma compare_params_absent_base:
  "compare_params None t ps chs =
     Inr (chs @ map (\<lambda>p. make_change t p PNone) (filter (\<lambda>p. py_ne PNone (p_value p)) ps))"
  by (induction ps arbitrary: chs) (simp_all add: base_value_of_def)

lemma compare_params_missing_param:
  "\<exists>p \<in> set ps. get_param b (p_key p) = None \<Longrightarrow> compare_params (Some b) t ps chs = Inl AttributeError"
proof (induction ps arbitrary: chs)
  case Nil
  then show ?case by simp
next
  case (Cons p ps)
  show ?case
  proof (cases "get_param b (p_key p)")
    case None
    then show ?thesis by (simp add: base_value_of_def)
  next
    case (Some bp)
    with Cons.prems have "\<exists>p \<in> set ps. get_param b (p_key p) = None" by auto
    with Some Cons.IH show ?thesis by (simp add: base_value_of_def Let_def)
  qed
qed

lemma compare_params_present:
  "\<forall>p \<in> set ps. get_param b (p_key p) \<noteq> None \<Longrightarrow>
   compare_params (Some b) t ps chs =
     Inr (chs @ map (\<lambda>p. make_change t p (get_param_value b (p_key p)))
                  (filter (\<lambda>p. py_ne (get_param_value b (p_key p)) (p_value p)) ps))"
proof (induction ps arbitrary: chs)
  case Nil
  then show ?case by simp
next
  case (Cons p ps)
  from Cons.prems obtain bp where bp: "get_param b (p_key p) = Some bp" by auto
  from Cons.prems have "\<forall>p \<in> set ps. get_param b (p_key p) \<noteq> None" by simp
  with bp Cons.IH show ?case
    by (simp add: base_value_of_def get_param_value_def Let_def)
qed

section \<open>Claims about the adaptation and the comparison\<close>

text \<open>
  Claim C10. In \<open>_compare_section\<close> the base value \<open>None\<close> stands for an absent base
  section only: without a base section every parameter of the target is compared with
  \<open>None\<close>; with a base section that lacks a parameter of the target, the comparison
  raises \<open>AttributeError\<close> and emits no change; with a base section that has them all, the
  old value of every change is the value of the base parameter.
\<close>

theorem compare_section_base_value:
  "compare_section None (Some t) chs =
     Inr (chs @ map (\<lambda>p. make_change t p PNone) (filter (\<lambda>p. py_ne PNone (p_value p)) (params t)))
   \<and> ((\<exists>p \<in> set (params t). get_param b (p_key p) = None) \<longrightarrow>
        compare_section (Some b) (Some t) chs = Inl AttributeError)
   \<and> ((\<forall>p \<in> set (params t). get_param b (p_key p) \<noteq> None) \<longrightarrow>
        compare_section (Some b) (Some t) chs =
          Inr (chs @ map (\<lambda>p. make_change t p (get_param_value b (p_key p)))
                       (filter (\<lambda>p. py_ne (get_param_value b (p_key p)) (p_value p)) (params t))))"
  by (simp add: compare_section_def compare_params_absent_base compare_params_missing_param
        compare_params_present)

text \<open>
  Claim C2. After \<open>_adapt\<close>, for every section key that is not ignored, the base and the
  target configuration of the patch have sections with the same (key, label) pairs.
\<close>

theorem adapt_same_section_labels:
  "adapt (base, target) = Inr (base', target') \<Longrightarrow>
     \<forall>skey. skey \<notin> set IGNORED_SECTIONS \<longrightarrow>
       (\<forall>lbl. (skey, lbl) \<in> section_ids base' \<longleftrightarrow> (skey, lbl) \<in> section_ids target')"
  by (simp add: adapt_section_ids)

text \<open>
  The base section \<open>ebs-1\<close> has no partner in the target: it is renamed \<open>_ebs\<close>, and
  the target gets a section of that label.
\<close>

theorem adapt_same_section_labels_witness:
  "\<not> isl (adapt example_ebs)
   \<and> map section_id (live_sections (fst (projr (adapt example_ebs)))) =
       [(''cluster'', ''default''), (''vpc'', ''default''), (''ebs'', ''_ebs''), (''ebs'', ''ebs-2'')]
   \<and> (''ebs'', ''_ebs'') \<in> section_ids (snd (projr (adapt example_ebs)))"
proof -
  have ok: "\<not> isl (adapt example_ebs)" by code_simp
  then have r: "adapt (base_two_ebs, target_one_ebs)
      = Inr (fst (projr (adapt example_ebs)), snd (projr (adapt example_ebs)))"
    by (cases "adapt example_ebs") (auto simp: example_ebs_def)
  have ids: "map section_id (live_sections (fst (projr (adapt example_ebs)))) =
       [(''cluster'', ''default''), (''vpc'', ''default''), (''ebs'', ''_ebs''), (''ebs'', ''ebs-2'')]"
    by code_simp
  then have "(''ebs'', ''_ebs'') \<in> section_ids (fst (projr (adapt example_ebs)))"
    by (simp add: section_ids_def)
  moreover have "''ebs'' \<notin> set IGNORED_SECTIONS" by (simp add: IGNORED_SECTIONS_def)
  ultimately have "(''ebs'', ''_ebs'') \<in> section_ids (snd (projr (adapt example_ebs)))"
    using adapt_same_section_labels[OF r] by blast
  with ok ids show ?thesis by simp
qed

text \<open>
  Claim C6, as amended. Several sections of a key without \<open>key_param\<close> raise no error.
  \<open>_adapt\<close> raises exactly when the base or the target has more than one section of an
  ignored key (\<open>global\<close>, \<open>aliases\<close>), with the exception of \<open>remove_section\<close> for that
  key; the construction of a patch then raises this exception, and it raises nothing else
  but the \<open>AttributeError\<close> of the comparison. When \<open>_adapt\<close> returns, the base and
  the target have sections with the same (key, label) pairs, and no two sections of one
  configuration have the same pair if none had before. A base section of a key without \<open>key_param\<close> is matched to
  the section of its key in the target if the target has exactly one at that moment, and
  otherwise gets a default section, created in the target, as its partner. A default
  section has the key and the label of the section it is created for and the default
  parameters, is added to the configuration, and is marked as mock only for a key with
  \<open>key_param\<close>.
\<close>

theorem adapt_fails_only_on_ignored_keys:
  "((\<exists>e. adapt (base, target) = Inl e) \<longleftrightarrow>
      (\<exists>k \<in> set IGNORED_SECTIONS.
         1 < length (get_sections base k) \<or> 1 < length (get_sections target k)))
   \<and> (\<forall>e. adapt (base, target) = Inl e \<longrightarrow>
         (\<exists>k \<in> set IGNORED_SECTIONS. e = Exception (''More than one section with key '' @ k)))
   \<and> (\<forall>e. base_ref < length st \<and> target_ref < length st
          \<and> adapt (st ! base_ref, st ! target_ref) = Inl e \<longrightarrow>
         snd (ConfigPatch_init st base_ref target_ref) = Inl e)
   \<and> (\<forall>e. snd (ConfigPatch_init st base_ref target_ref) = Inl e \<longrightarrow>
         e = AttributeError \<or>
         (\<exists>k \<in> set IGNORED_SECTIONS. e = Exception (''More than one section with key '' @ k)))
   \<and> (\<forall>base' target'. adapt (base, target) = Inr (base', target') \<longrightarrow>
         section_ids base' = section_ids target'
         \<and> (unique_ids base \<and> unique_ids target \<longrightarrow> unique_ids base' \<and> unique_ids target'))
   \<and> (\<not> truthy_str (key_param base_section) \<longrightarrow>
       get_target_section target base_section =
         (if length (get_sections target (key base_section)) = 1
          then (target, hd (get_sections target (key base_section)))
          else create_default_section target base_section))
   \<and> fst (create_default_section config section) =
       add_section config (snd (create_default_section config section))
   \<and> key (snd (create_default_section config section)) = key section
   \<and> label (snd (create_default_section config section)) = label section
   \<and> params (snd (create_default_section config section)) = default_params section
   \<and> mock (snd (create_default_section config section)) = truthy_str (key_param section)"
proof (intro conjI allI impI)
  show "(\<exists>e. adapt (base, target) = Inl e) \<longleftrightarrow>
      (\<exists>k \<in> set IGNORED_SECTIONS.
         1 < length (get_sections base k) \<or> 1 < length (get_sections target k))"
    by (rule adapt_Inl)
next
  fix e assume "adapt (base, target) = Inl e"
  then show "\<exists>k \<in> set IGNORED_SECTIONS. e = Exception (''More than one section with key '' @ k)"
    by (rule adapt_error)
next
  fix e assume "base_ref < length st \<and> target_ref < length st
          \<and> adapt (st ! base_ref, st ! target_ref) = Inl e"
  then show "snd (ConfigPatch_init st base_ref target_ref) = Inl e"
    by (rule ConfigPatch_init_adapt_error)
next
  fix e assume "snd (ConfigPatch_init st base_ref target_ref) = Inl e"
  then show "e = AttributeError \<or>
         (\<exists>k \<in> set IGNORED_SECTIONS. e = Exception (''More than one section with key '' @ k))"
    by (rule ConfigPatch_init_error)
next
  fix base' target' assume "adapt (base, target) = Inr (base', target')"
  then show "section_ids base' = section_ids target'"
    by (rule adapt_section_ids)
next
  fix base' target'
  assume "adapt (base, target) = Inr (base', target')" "unique_ids base \<and> unique_ids target"
  then have "unique_ids base' \<and> unique_ids target'"
    by (simp add: unique_ids_adapt)
  then show "unique_ids base'" and "unique_ids target'" by simp_all
next
  assume "\<not> truthy_str (key_param base_section)"
  then show "get_target_section target base_section =
         (if length (get_sections target (key base_section)) = 1
          then (target, hd (get_sections target (key base_section)))
          else create_default_section target base_section)"
    by (simp add: get_target_section_def Let_def)
qed (simp_all add: create_default_section_def Let_def Section_init_def)

text \<open>
  The target has two vpc sections: the adaptation returns, and the base section gets a
  default section in the target. A target with two sections of the key \<open>global\<close> makes
  the adaptation and the construction raise, and a target without a cluster section the
  comparison.
\<close>

theorem adapt_fails_only_on_ignored_keys_witness:
  "\<not> isl (adapt (base_one_vpc, target_two_vpcs))
   \<and> length (get_sections target_two_vpcs ''vpc'') = 2
   \<and> get_target_section target_two_vpcs (vpc_section ''_vpc'' ''subnet-12345678'')
       = create_default_section target_two_vpcs (vpc_section ''_vpc'' ''subnet-12345678'')
   \<and> section_ids (fst (projr (adapt (base_one_vpc, target_two_vpcs))))
       = section_ids (snd (projr (adapt (base_one_vpc, target_two_vpcs))))
   \<and> section_ids (snd (projr (adapt (base_one_vpc, target_two_vpcs))))
       = {(''cluster'', ''default''), (''vpc'', ''public''), (''vpc'', ''private''), (''vpc'', ''_vpc'')}
   \<and> unique_ids (fst (projr (adapt (base_one_vpc, target_two_vpcs))))
   \<and> unique_ids (snd (projr (adapt (base_one_vpc, target_two_vpcs))))
   \<and> adapt (base_one_vpc, target_two_globals) =
       Inl (Exception ''More than one section with key global'')
   \<and> snd (ConfigPatch_init example_globals_store 0 1) =
       Inl (Exception ''More than one section with key global'')
   \<and> isl (snd (ConfigPatch_init example_no_cluster_store 0 1))
   \<and> projl (snd (ConfigPatch_init example_no_cluster_store 0 1)) = AttributeError"
proof -
  note inst = adapt_fails_only_on_ignored_keys[where base = base_one_vpc
      and target = target_two_vpcs and base_section = "vpc_section ''_vpc'' ''subnet-12345678''"]
  have n: "length (get_sections target_two_vpcs ''vpc'') = 2" by code_simp
  have "\<not> (\<exists>k \<in> set IGNORED_SECTIONS.
         1 < length (get_sections base_one_vpc k) \<or> 1 < length (get_sections target_two_vpcs k))"
    by code_simp
  with inst have "\<not> (\<exists>e. adapt (base_one_vpc, target_two_vpcs) = Inl e)" by blast
  then have 1: "\<not> isl (adapt (base_one_vpc, target_two_vpcs))"
    by (cases "adapt (base_one_vpc, target_two_vpcs)") auto
  then have r: "adapt (base_one_vpc, target_two_vpcs) =
      Inr (fst (projr (adapt (base_one_vpc, target_two_vpcs))),
           snd (projr (adapt (base_one_vpc, target_two_vpcs))))"
    by (cases "adapt (base_one_vpc, target_two_vpcs)") auto
  have "\<not> truthy_str (key_param (vpc_section ''_vpc'' ''subnet-12345678''))"
    "key (vpc_section ''_vpc'' ''subnet-12345678'') = ''vpc''"
    by (simp_all add: vpc_section_def)
  with inst n have 2: "get_target_section target_two_vpcs (vpc_section ''_vpc'' ''subnet-12345678'')
       = create_default_section target_two_vpcs (vpc_section ''_vpc'' ''subnet-12345678'')"
    by simp
  from inst r have 3: "section_ids (fst (projr (adapt (base_one_vpc, target_two_vpcs))))
       = section_ids (snd (projr (adapt (base_one_vpc, target_two_vpcs))))"
    by blast
  have 4: "section_ids (snd (projr (adapt (base_one_vpc, target_two_vpcs))))
       = {(''cluster'', ''default''), (''vpc'', ''public''), (''vpc'', ''private''), (''vpc'', ''_vpc'')}"
    by code_simp
  have "unique_ids base_one_vpc \<and> unique_ids target_two_vpcs" by code_simp
  with inst r have u: "unique_ids (fst (projr (adapt (base_one_vpc, target_two_vpcs))))"
    "unique_ids (snd (projr (adapt (base_one_vpc, target_two_vpcs))))"
    by blast+
  have "isl (adapt (base_one_vpc, target_two_globals))"
    "projl (adapt (base_one_vpc, target_two_globals)) =
       Exception ''More than one section with key global''"
    by code_simp+
  then have 5: "adapt (base_one_vpc, target_two_globals) =
       Inl (Exception ''More than one section with key global'')"
    by (cases "adapt (base_one_vpc, target_two_globals)") auto
  have "0 < length example_globals_store \<and> 1 < length example_globals_store
      \<and> example_globals_store ! 0 = base_one_vpc \<and> example_globals_store ! 1 = target_two_globals"
    by (simp add: example_globals_store_def)
  with 5 adapt_fails_only_on_ignored_keys[where st = example_globals_store
      and base_ref = 0 and target_ref = 1]
  have 7: "snd (ConfigPatch_init example_globals_store 0 1) =
       Inl (Exception ''More than one section with key global'')"
    by simp
  have 6: "isl (snd (ConfigPatch_init example_no_cluster_store 0 1))"
    "projl (snd (ConfigPatch_init example_no_cluster_store 0 1)) = AttributeError"
    by code_simp+
  from 1 n 2 3 4 u 5 7 6 show ?thesis by simp
qed

text \<open>
  Claim C6 as stated fails: with two vpc sections in the target, the construction returns
  a patch, whose changes compare each of the two with a default section created in the
  base, and the base section with a default section created in the target.
\<close>

theorem ambiguous_sections_counterexample:
  "\<not> isl (snd (ConfigPatch_init example_vpc_store 0 1))
   \<and> map change_summary (changes (projr (snd (ConfigPatch_init example_vpc_store 0 1)))) =
       [(''vpc'', ''public'', ''master_subnet_id'', PNone, PStr ''subnet-12345678''),
        (''vpc'', ''private'', ''master_subnet_id'', PNone, PStr ''subnet-87654321''),
        (''vpc'', ''_vpc'', ''master_subnet_id'', PStr ''subnet-12345678'', PNone)]"
  by code_simp

text \<open>
  Claim C9. The construction of a patch leaves every configuration object that existed
  before as it was, whether it returns a patch or raises: it allocates two new objects,
  its copies, and the patch refers to these.
\<close>

theorem ConfigPatch_init_frame:
  "(\<forall>r < length st. fst (ConfigPatch_init st base_ref target_ref) ! r = st ! r)
   \<and> length (fst (ConfigPatch_init st base_ref target_ref)) = length st + 2
   \<and> (\<forall>p. snd (ConfigPatch_init st base_ref target_ref) = Inr p \<longrightarrow>
         base_config p = length st \<and> target_config p = Suc (length st))"
  using ConfigPatch_init_frame_aux[of _ st base_ref target_ref]
    ConfigPatch_init_refs[of st base_ref target_ref] ConfigPatch_init_length[of st base_ref target_ref]
  by blast

text \<open>
  The caller's configurations are as before, with the labels \<open>ebs-1\<close> and \<open>ebs-2\<close> in
  the base; in the copy of the patch, \<open>ebs-1\<close> has become \<open>_ebs\<close>.
\<close>

theorem ConfigPatch_init_frame_witness:
  "fst (ConfigPatch_init example_ebs_store 0 1) ! 0 = base_two_ebs
   \<and> fst (ConfigPatch_init example_ebs_store 0 1) ! 1 = target_one_ebs
   \<and> map label (sections base_two_ebs) = [''default'', ''default'', ''ebs-1'', ''ebs-2'']
   \<and> map label (sections (fst (ConfigPatch_init example_ebs_store 0 1) ! 2)) =
       [''default'', ''default'', ''_ebs'', ''ebs-2'']"
proof -
  have l: "length example_ebs_store = 2" by (simp add: example_ebs_store_def)
  from ConfigPatch_init_frame[of example_ebs_store 0 1] l
  have "fst (ConfigPatch_init example_ebs_store 0 1) ! 0 = example_ebs_store ! 0"
    "fst (ConfigPatch_init example_ebs_store 0 1) ! 1 = example_ebs_store ! 1"
    by simp_all
  then have 1: "fst (ConfigPatch_init example_ebs_store 0 1) ! 0 = base_two_ebs"
    "fst (ConfigPatch_init example_ebs_store 0 1) ! 1 = target_one_ebs"
    by (simp_all add: example_ebs_store_def)
  have 2: "map label (sections base_two_ebs) = [''default'', ''default'', ''ebs-1'', ''ebs-2'']"
    by code_simp
  have 3: "map label (sections (fst (ConfigPatch_init example_ebs_store 0 1) ! 2)) =
       [''default'', ''default'', ''_ebs'', ''ebs-2'']"
    by code_simp
  from 1 2 3 show ?thesis by simp
qed

text \<open>
  An ebs section compared with a base section of another type, with no base section, and
  with an ebs section of another \<open>shared_dir\<close>.
\<close>

theorem compare_section_base_value_witness:
  "compare_section (Some (vpc_section ''default'' ''subnet-12345678''))
     (Some (ebs_section ''ebs-1'' ''vol1'')) [] = Inl AttributeError
   \<and> map change_summary (projr (compare_section None (Some (ebs_section ''ebs-1'' ''vol1'')) [])) =
       [(''ebs'', ''ebs-1'', ''shared_dir'', PNone, PStr ''vol1''),
        (''ebs'', ''ebs-1'', ''volume_size'', PNone, PInt 20)]
   \<and> map change_summary (projr (compare_section (Some (ebs_section ''_ebs'' ''vol0''))
        (Some (ebs_section ''ebs-1'' ''vol1'')) [])) =
       [(''ebs'', ''ebs-1'', ''shared_dir'', PStr ''vol0'', PStr ''vol1'')]"
proof -
  let ?t = "ebs_section ''ebs-1'' ''vol1''"
  have missing: "\<exists>p \<in> set (params ?t). get_param (vpc_section ''default'' ''subnet-12345678'') (p_key p) = None"
    by code_simp
  have present: "\<forall>p \<in> set (params ?t). get_param (ebs_section ''_ebs'' ''vol0'') (p_key p) \<noteq> None"
    by code_simp
  from compare_section_base_value[of ?t "[]" "vpc_section ''default'' ''subnet-12345678''"] missing
  have 1: "compare_section (Some (vpc_section ''default'' ''subnet-12345678'')) (Some ?t) [] = Inl AttributeError"
    by blast
  from compare_section_base_value[of ?t "[]" "ebs_section ''_ebs'' ''vol0''"] present
  have "compare_section None (Some ?t) [] =
     Inr ([] @ map (\<lambda>p. make_change ?t p PNone) (filter (\<lambda>p. py_ne PNone (p_value p)) (params ?t)))"
    and "compare_section (Some (ebs_section ''_ebs'' ''vol0'')) (Some ?t) [] =
          Inr ([] @ map (\<lambda>p. make_change ?t p (get_param_value (ebs_section ''_ebs'' ''vol0'') (p_key p)))
                       (filter (\<lambda>p. py_ne (get_param_value (ebs_section ''_ebs'' ''vol0'') (p_key p)) (p_value p)) (params ?t)))"
    by blast+
  then have 2: "map change_summary (projr (compare_section None (Some ?t) [])) =
       [(''ebs'', ''ebs-1'', ''shared_dir'', PNone, PStr ''vol1''),
        (''ebs'', ''ebs-1'', ''volume_size'', PNone, PInt 20)]"
    and 3: "map change_summary (projr (compare_section (Some (ebs_section ''_ebs'' ''vol0'')) (Some ?t) [])) =
       [(''ebs'', ''ebs-1'', ''shared_dir'', PStr ''vol0'', PStr ''vol1'')]"
    by (simp_all add: ebs_section_def plain_param_def make_change_def change_summary_def
          py_ne_def get_param_value_def get_param_def)
  from 1 2 3 show ?thesis by simp
qed




end
